theory Spec2Isabelle
  imports Main
begin

section \<open>JavaScript values used by the Sea Battle game\<close>

text \<open>
  The game (Ship.js, Board.js, Player.js, Game.js) works on coordinate strings such as
  \<open>''34''\<close>, on numbers obtained from them by \<open>parseInt\<close>, and on arrays. A thrown
  exception is a value on the left of a sum. \<open>Error msg\<close> is \<open>new Error(msg)\<close>;
  \<open>TypeError\<close> is what the engine throws when a property of \<open>undefined\<close> is read or
  written. A throw ends the computation: the model does not keep the half-updated
  object that the JavaScript caller could still look at afterwards.
\<close>

datatype error = Error string | TypeError

text \<open>
  A JavaScript number is modelled as \<open>int option\<close>: only integers occur, and \<open>None\<close> is
  \<open>NaN\<close>. Every comparison with \<open>NaN\<close> is false and arithmetic on it gives \<open>NaN\<close>.
\<close>

type_synonym jsnum = "int option"

text \<open>\<open>Array.prototype.indexOf\<close>: the first index holding the value, \<open>None\<close> for \<open>-1\<close>.\<close>

fun indexOf :: "'a list \<Rightarrow> 'a \<Rightarrow> nat option" where
  "indexOf [] x = None"
| "indexOf (y # ys) x = (if y = x then Some 0 else map_option Suc (indexOf ys x))"

definition digit_chars :: string where
  "digit_chars = ''0123456789''"

text \<open>
  \<open>parseInt(s[i])\<close> on a single character: a decimal digit gives its value, anything
  else (a sign alone, a letter, a blank) gives \<open>NaN\<close>.
\<close>

definition parseInt :: "char \<Rightarrow> jsnum" where
  "parseInt ch = map_option int (indexOf digit_chars ch)"

text \<open>The decimal text of a number inside a template literal \<open>`${n}`\<close>.\<close>

fun show_nat :: "nat \<Rightarrow> string" where
  "show_nat n = (if n < 10 then [digit_chars ! n]
                 else show_nat (n div 10) @ [digit_chars ! (n mod 10)])"

declare show_nat.simps [simp del]

definition show_int :: "int \<Rightarrow> string" where
  "show_int i = (if i < 0 then CHR ''-'' # show_nat (nat (- i)) else show_nat (nat i))"

section \<open>Ship.js\<close>

record ship =
  locations :: "string list"
  hits :: "bool list"

text \<open>The constructor copies the locations and makes one \<open>false\<close> flag per location.\<close>

definition Ship_new :: "string list \<Rightarrow> ship" where
  "Ship_new locs = \<lparr>locations = locs, hits = replicate (length locs) False\<rparr>"

text \<open>
  \<open>hit(location)\<close> returns the answer and the updated ship. The flag array is as long
  as the location array in every ship the constructor makes, and \<open>hit\<close> keeps it so
  (lemma \<open>hit_length\<close>). A read past the end of the flag array would give \<open>undefined\<close>,
  which is falsy, and the write would lengthen the array; the model pads the gap with
  \<open>False\<close>.
\<close>

definition hit :: "string \<Rightarrow> ship \<Rightarrow> bool \<times> ship" where
  "hit location s =
     (case indexOf (locations s) location of
        None \<Rightarrow> (False, s)
      | Some index \<Rightarrow>
          if index < length (hits s) then
            (if \<not> hits s ! index then (True, s\<lparr>hits := (hits s)[index := True]\<rparr>)
             else (False, s))
          else (True, s\<lparr>hits := hits s @ replicate (index - length (hits s)) False @ [True]\<rparr>))"

definition isSunk :: "ship \<Rightarrow> bool" where
  "isSunk s = list_all (\<lambda>h. h) (hits s)"

definition occupies :: "ship \<Rightarrow> string \<Rightarrow> bool" where
  "occupies s location = (location \<in> set (locations s))"

text \<open>A ship after a sequence of \<open>hit\<close> calls, in order.\<close>

fun hit_all :: "string list \<Rightarrow> ship \<Rightarrow> ship" where
  "hit_all [] s = s"
| "hit_all (c # cs) s = hit_all cs (snd (hit c s))"

section \<open>Board.js\<close>

text \<open>
  A grid cell holds one of the markers \<open>'~'\<close>, \<open>'S'\<close>, \<open>'X'\<close>, \<open>'O'\<close>. \<open>Undefined\<close> is
  what JavaScript reads from a column that a row does not have, and what fills the gap
  when a write past the end of a row lengthens it.
\<close>

datatype cell = Water | ShipMark | HitMark | MissMark | Undefined

record board =
  sizeB :: nat
  grid :: "cell list list"
  ships :: "ship list"
  guesses :: "string set"

definition createGrid :: "nat \<Rightarrow> cell list list" where
  "createGrid n = replicate n (replicate n Water)"

definition Board_new :: "nat \<Rightarrow> board" where
  "Board_new n = \<lparr>sizeB = n, grid = createGrid n, ships = [], guesses = {}\<rparr>"

text \<open>
  \<open>this.grid[row][col]\<close> read: a row that does not exist is \<open>undefined\<close> and indexing
  it throws; a column that does not exist reads as \<open>undefined\<close>.
\<close>

definition grid_read :: "cell list list \<Rightarrow> jsnum \<Rightarrow> jsnum \<Rightarrow> error + cell" where
  "grid_read g row col =
     (case row of
        None \<Rightarrow> Inl TypeError
      | Some r \<Rightarrow>
          if r < 0 \<or> int (length g) \<le> r then Inl TypeError
          else (case col of
                  None \<Rightarrow> Inr Undefined
                | Some c \<Rightarrow>
                    if 0 \<le> c \<and> c < int (length (g ! nat r)) then Inr (g ! nat r ! nat c)
                    else Inr Undefined))"

text \<open>
  \<open>this.grid[row][col] = v\<close>: a missing row throws. A column that is \<open>NaN\<close> or negative
  sets a property of the row object that is not one of its elements, so no cell
  changes; a column past the end lengthens the row.
\<close>

definition row_write :: "cell list \<Rightarrow> jsnum \<Rightarrow> cell \<Rightarrow> cell list" where
  "row_write xs col v =
     (case col of
        None \<Rightarrow> xs
      | Some c \<Rightarrow>
          if c < 0 then xs
          else if c < int (length xs) then xs[nat c := v]
          else xs @ replicate (nat c - length xs) Undefined @ [v])"

definition grid_write :: "cell list list \<Rightarrow> jsnum \<Rightarrow> jsnum \<Rightarrow> cell \<Rightarrow> error + cell list list" where
  "grid_write g row col v =
     (case row of
        None \<Rightarrow> Inl TypeError
      | Some r \<Rightarrow>
          if r < 0 \<or> int (length g) \<le> r then Inl TypeError
          else Inr (g[nat r := row_write (g ! nat r) col v]))"

definition parseCoordinate :: "string \<Rightarrow> error + (jsnum \<times> jsnum)" where
  "parseCoordinate coordinate =
     (if length coordinate \<noteq> 2 then Inl (Error ''Invalid coordinate format'')
      else Inr (parseInt (coordinate ! 0), parseInt (coordinate ! 1)))"

definition isValidCoordinate :: "board \<Rightarrow> jsnum \<Rightarrow> jsnum \<Rightarrow> bool" where
  "isValidCoordinate b row col =
     (case (row, col) of
        (Some r, Some c) \<Rightarrow> 0 \<le> r \<and> r < int (sizeB b) \<and> 0 \<le> c \<and> c < int (sizeB b)
      | _ \<Rightarrow> False)"

subsection \<open>Random placement\<close>

text \<open>
  \<open>Math.random()\<close> returns a double in \<open>[0, 1)\<close>. The outcomes of the successive calls
  are a parameter of the model: a sequence of naturals \<open>k\<close>, each read as the fraction
  \<open>(k mod 2^53) / 2^53\<close>. \<open>random_floor k n\<close> stands for
  \<open>Math.floor(Math.random() * n)\<close> and \<open>random_lt_half k\<close> for \<open>Math.random() < 0.5\<close>.
  The model takes the product with \<open>n\<close> exactly, where the code rounds it to a double
  before the floor, so for one and the same fraction the two results can differ by one:
  the double \<open>0.7\<close> times 10 is 7 in the code and floors to 6 here. The properties
  below are about all sequences of draws and use only the set of possible results,
  which is the same on both sides: for \<open>0 < n\<close> the result lies in \<open>0 .. n - 1\<close>
  (lemma \<open>random_floor_range\<close>) and every value there is the result of some draw
  (lemma \<open>random_floor_onto\<close>). Every draw is used in one place only, so each run of
  the code is the run of the model on some sequence of draws. For \<open>n \<le> 0\<close> the result
  lies between \<open>n\<close> and \<open>0\<close>.
\<close>

type_synonym rng = "nat \<Rightarrow> nat"

definition random_lt_half :: "nat \<Rightarrow> bool" where
  "random_lt_half k = (k mod 2 ^ 53 < 2 ^ 52)"

definition random_floor :: "nat \<Rightarrow> int \<Rightarrow> int" where
  "random_floor k n = (int (k mod 2 ^ 53) * n) div 2 ^ 53"

datatype orientation = Horizontal | Vertical

text \<open>The two draws \<open>k1\<close>, \<open>k2\<close> are the ones for the row and for the column.\<close>

definition getRandomStartPosition :: "nat \<Rightarrow> orientation \<Rightarrow> nat \<Rightarrow> nat \<Rightarrow> board \<Rightarrow> int \<times> int" where
  "getRandomStartPosition shipLength orient k1 k2 b =
     (let startRow = (if orient = Horizontal then random_floor k1 (int (sizeB b))
                      else random_floor k1 (int (sizeB b) - int shipLength + 1));
          startCol = (if orient = Horizontal then random_floor k2 (int (sizeB b) - int shipLength + 1)
                      else random_floor k2 (int (sizeB b)))
      in (startRow, startCol))"

definition generateShipLocations :: "int \<Rightarrow> int \<Rightarrow> nat \<Rightarrow> orientation \<Rightarrow> string list" where
  "generateShipLocations startRow startCol shipLength orient =
     map (\<lambda>i. let row = (if orient = Horizontal then startRow else startRow + int i);
                   col = (if orient = Horizontal then startCol + int i else startCol)
               in show_int row @ show_int col)
         [0..<shipLength]"

text \<open>\<open>locations.every(...)\<close> stops at the first location that fails the test.\<close>

fun canPlaceShip :: "string list \<Rightarrow> board \<Rightarrow> error + bool" where
  "canPlaceShip [] b = Inr True"
| "canPlaceShip (location # rest) b =
     (case parseCoordinate location of
        Inl e \<Rightarrow> Inl e
      | Inr (row, col) \<Rightarrow>
          if isValidCoordinate b row col then
            (case grid_read (grid b) row col of
               Inl e \<Rightarrow> Inl e
             | Inr v \<Rightarrow> if v = Water then canPlaceShip rest b else Inr False)
          else Inr False)"

text \<open>The \<open>forEach\<close> of \<open>placeShip\<close> that marks the ship on the grid.\<close>

fun mark_ship :: "string list \<Rightarrow> cell list list \<Rightarrow> error + cell list list" where
  "mark_ship [] g = Inr g"
| "mark_ship (location # rest) g =
     (case parseCoordinate location of
        Inl e \<Rightarrow> Inl e
      | Inr (row, col) \<Rightarrow>
          (case grid_write g row col ShipMark of
             Inl e \<Rightarrow> Inl e
           | Inr g' \<Rightarrow> mark_ship rest g'))"

definition placeShip :: "string list \<Rightarrow> board \<Rightarrow> error + board" where
  "placeShip locs b =
     (let b1 = b\<lparr>ships := ships b @ [Ship_new locs]\<rparr>
      in case mark_ship locs (grid b1) of
           Inl e \<Rightarrow> Inl e
         | Inr g \<Rightarrow> Inr (b1\<lparr>grid := g\<rparr>))"

definition maxAttempts :: nat where
  "maxAttempts = 1000"

text \<open>
  The \<open>while\<close> loop of \<open>placeShipsRandomly\<close>. Attempt number \<open>attempts\<close> (counted from 0)
  uses the draws \<open>3 * attempts\<close>, \<open>3 * attempts + 1\<close> and \<open>3 * attempts + 2\<close> of the
  sequence: orientation, start row, start column. The loop returns the two counters
  and the board.
\<close>

function place_loop :: "nat \<Rightarrow> nat \<Rightarrow> rng \<Rightarrow> nat \<Rightarrow> nat \<Rightarrow> board \<Rightarrow> error + (nat \<times> nat \<times> board)" where
  "place_loop numShips shipLength rs placedShips attempts b =
     (if placedShips < numShips \<and> attempts < maxAttempts then
        (let orient = (if random_lt_half (rs (3 * attempts)) then Horizontal else Vertical);
             (startRow, startCol) =
                getRandomStartPosition shipLength orient
                  (rs (3 * attempts + 1)) (rs (3 * attempts + 2)) b;
             shipLocations = generateShipLocations startRow startCol shipLength orient
         in case canPlaceShip shipLocations b of
              Inl e \<Rightarrow> Inl e
            | Inr True \<Rightarrow>
                (case placeShip shipLocations b of
                   Inl e \<Rightarrow> Inl e
                 | Inr b' \<Rightarrow>
                     place_loop numShips shipLength rs (placedShips + 1) (attempts + 1) b')
            | Inr False \<Rightarrow>
                place_loop numShips shipLength rs placedShips (attempts + 1) b)
      else Inr (placedShips, attempts, b))"
  by pat_completeness auto
termination
  by (relation "measure (\<lambda>(numShips, shipLength, rs, placedShips, attempts, b). maxAttempts - attempts)")
     auto

declare place_loop.simps [simp del]

definition placement_message :: "nat \<Rightarrow> nat \<Rightarrow> string" where
  "placement_message placedShips numShips =
     ''Could only place '' @ show_nat placedShips @ '' out of '' @ show_nat numShips
       @ '' ships after '' @ show_nat maxAttempts @ '' attempts''"

definition placeShipsRandomly :: "nat \<Rightarrow> nat \<Rightarrow> rng \<Rightarrow> board \<Rightarrow> error + board" where
  "placeShipsRandomly numShips shipLength rs b =
     (case place_loop numShips shipLength rs 0 0 b of
        Inl e \<Rightarrow> Inl e
      | Inr (placedShips, attempts, b') \<Rightarrow>
          if placedShips < numShips then Inl (Error (placement_message placedShips numShips))
          else Inr b')"

subsection \<open>Guess resolution\<close>

record guess_result =
  r_hit :: bool
  r_sunk :: bool
  r_alreadyGuessed :: bool
  r_ship :: "ship option"

text \<open>
  The \<open>for (const ship of this.ships)\<close> loop of \<open>processGuess\<close>: the first ship whose
  \<open>hit\<close> answers true, together with the ship list after the calls made so far.
\<close>

fun hit_first :: "string \<Rightarrow> ship list \<Rightarrow> (ship \<times> ship list) option" where
  "hit_first coordinate [] = None"
| "hit_first coordinate (s # rest) =
     (case hit coordinate s of
        (True, s') \<Rightarrow> Some (s', s' # rest)
      | (False, s') \<Rightarrow>
          map_option (\<lambda>(h, rest'). (h, s' # rest')) (hit_first coordinate rest))"

definition processGuess :: "string \<Rightarrow> board \<Rightarrow> error + (guess_result \<times> board)" where
  "processGuess coordinate b =
     (if coordinate \<in> guesses b then
        Inr (\<lparr>r_hit = False, r_sunk = False, r_alreadyGuessed = True, r_ship = None\<rparr>, b)
      else
        (let b1 = b\<lparr>guesses := insert coordinate (guesses b)\<rparr>
         in case parseCoordinate coordinate of
              Inl e \<Rightarrow> Inl e
            | Inr (row, col) \<Rightarrow>
                (case hit_first coordinate (ships b1) of
                   Some (s, ships') \<Rightarrow>
                     (case grid_write (grid b1) row col HitMark of
                        Inl e \<Rightarrow> Inl e
                      | Inr g \<Rightarrow>
                          Inr (\<lparr>r_hit = True, r_sunk = isSunk s, r_alreadyGuessed = False,
                                r_ship = Some s\<rparr>,
                               b1\<lparr>ships := ships', grid := g\<rparr>))
                 | None \<Rightarrow>
                     (case grid_write (grid b1) row col MissMark of
                        Inl e \<Rightarrow> Inl e
                      | Inr g \<Rightarrow>
                          Inr (\<lparr>r_hit = False, r_sunk = False, r_alreadyGuessed = False,
                                r_ship = None\<rparr>,
                               b1\<lparr>grid := g\<rparr>)))))"

definition allShipsSunk :: "board \<Rightarrow> bool" where
  "allShipsSunk b = (length (ships b) > 0 \<and> list_all isSunk (ships b))"

definition getRemainingShipsCount :: "board \<Rightarrow> nat" where
  "getRemainingShipsCount b = length (filter (\<lambda>s. \<not> isSunk s) (ships b))"

definition hasBeenGuessed :: "board \<Rightarrow> string \<Rightarrow> bool" where
  "hasBeenGuessed b coordinate = (coordinate \<in> guesses b)"

section \<open>Player.js\<close>

text \<open>
  \<open>Player\<close> owns its own board and a tracking view of the opponent's board, both made
  by \<open>new Board()\<close>, so of the default size 10. \<open>HumanPlayer\<close> adds no field;
  \<open>CPUPlayer\<close> extends the record by the state of the hunt and target strategy.
\<close>

record player =
  name :: string
  board :: board
  opponentBoard :: board

definition Player_new :: "string \<Rightarrow> player" where
  "Player_new n = \<lparr>name = n, board = Board_new 10, opponentBoard = Board_new 10\<rparr>"

definition setupBoard :: "nat \<Rightarrow> nat \<Rightarrow> rng \<Rightarrow> 'a player_scheme \<Rightarrow> error + 'a player_scheme" where
  "setupBoard numShips shipLength rs p =
     (case placeShipsRandomly numShips shipLength rs (board p) of
        Inl e \<Rightarrow> Inl e
      | Inr b \<Rightarrow> Inr (p\<lparr>board := b\<rparr>))"

definition receiveGuess :: "string \<Rightarrow> 'a player_scheme \<Rightarrow> error + (guess_result \<times> 'a player_scheme)" where
  "receiveGuess coordinate p =
     (case processGuess coordinate (board p) of
        Inl e \<Rightarrow> Inl e
      | Inr (r, b) \<Rightarrow> Inr (r, p\<lparr>board := b\<rparr>))"

definition isDefeated :: "'a player_scheme \<Rightarrow> bool" where
  "isDefeated p = allShipsSunk (board p)"

definition getRemainingShips :: "'a player_scheme \<Rightarrow> nat" where
  "getRemainingShips p = getRemainingShipsCount (board p)"

subsection \<open>HumanPlayer\<close>

text \<open>The object \<open>{isValid, error}\<close> or \<open>{isValid, coordinate}\<close> that \<open>validateGuess\<close> returns.\<close>

datatype validation = Invalid string | Valid string

definition validateGuess :: "string \<Rightarrow> 'a player_scheme \<Rightarrow> validation" where
  "validateGuess input p =
     (if input = [] \<or> length input \<noteq> 2 then
        Invalid ''Input must be exactly two digits (e.g., 00, 34, 98).''
      else
        (case (parseInt (input ! 0), parseInt (input ! 1)) of
           (Some row, Some col) \<Rightarrow>
             if row < 0 \<or> row \<ge> 10 \<or> col < 0 \<or> col \<ge> 10 then
               Invalid ''Please enter valid row and column numbers between 0 and 9.''
             else if hasBeenGuessed (opponentBoard p) input then
               Invalid ''You already guessed that location!''
             else Valid input
         | _ \<Rightarrow> Invalid ''Please enter valid row and column numbers between 0 and 9.''))"

subsection \<open>CPUPlayer\<close>

datatype mode = Hunt | Target

record cpu_player = player +
  mode :: mode
  targetQueue :: "string list"
  lastHit :: "string option"

definition CPUPlayer_new :: "string \<Rightarrow> cpu_player" where
  "CPUPlayer_new n =
     \<lparr>name = n, board = Board_new 10, opponentBoard = Board_new 10,
      mode = Hunt, targetQueue = [], lastHit = None\<rparr>"

text \<open>
  The \<open>do ... while\<close> loop of \<open>generateHuntGuess\<close>. Attempt number \<open>attempts\<close> (counted
  from 0) uses the draws \<open>2 * attempts\<close> and \<open>2 * attempts + 1\<close> for the row and the
  column. It returns the last coordinate drawn and the number of attempts made.
\<close>

definition maxHuntAttempts :: nat where
  "maxHuntAttempts = 100"

function hunt_loop :: "rng \<Rightarrow> board \<Rightarrow> nat \<Rightarrow> string \<times> nat" where
  "hunt_loop rs ob attempts =
     (let row = random_floor (rs (2 * attempts)) 10;
          col = random_floor (rs (2 * attempts + 1)) 10;
          coordinate = show_int row @ show_int col;
          attempts' = attempts + 1
      in if hasBeenGuessed ob coordinate \<and> attempts' < maxHuntAttempts
         then hunt_loop rs ob attempts'
         else (coordinate, attempts'))"
  by pat_completeness auto
termination
  by (relation "measure (\<lambda>(rs, ob, attempts). maxHuntAttempts - attempts)") auto

declare hunt_loop.simps [simp del]

text \<open>The coordinates of the 10 by 10 board in the order of the two nested \<open>for\<close> loops.\<close>

definition scan_order :: "string list" where
  "scan_order = concat (map (\<lambda>row. map (\<lambda>col. show_nat row @ show_nat col) [0..<10]) [0..<10])"

definition generateHuntGuess :: "rng \<Rightarrow> 'a cpu_player_scheme \<Rightarrow> string" where
  "generateHuntGuess rs p =
     (let (coordinate, attempts) = hunt_loop rs (opponentBoard p) 0
      in if attempts \<ge> maxHuntAttempts then
           (case find (\<lambda>coord. \<not> hasBeenGuessed (opponentBoard p) coord) scan_order of
              Some coord \<Rightarrow> coord
            | None \<Rightarrow> coordinate)
         else coordinate)"

text \<open>
  The \<open>while\<close> loop of \<open>generateGuess\<close>: it keeps shifting the queue while the
  coordinate in hand has been guessed and the queue is not empty.
\<close>

fun skip_guessed :: "board \<Rightarrow> string \<Rightarrow> string list \<Rightarrow> string \<times> string list" where
  "skip_guessed ob coordinate [] = (coordinate, [])"
| "skip_guessed ob coordinate (q # queue) =
     (if hasBeenGuessed ob coordinate then skip_guessed ob q queue
      else (coordinate, q # queue))"

definition generateGuess :: "rng \<Rightarrow> 'a cpu_player_scheme \<Rightarrow> string \<times> 'a cpu_player_scheme" where
  "generateGuess rs p =
     (case targetQueue p of
        first # queue \<Rightarrow>
          if mode p = Target then
            (let (coordinate, queue') = skip_guessed (opponentBoard p) first queue;
                 p1 = p\<lparr>targetQueue := queue'\<rparr>
             in if hasBeenGuessed (opponentBoard p1) coordinate then
                  (let p2 = p1\<lparr>mode := Hunt\<rparr> in (generateHuntGuess rs p2, p2))
                else (coordinate, p1))
          else (let p1 = p\<lparr>mode := Hunt\<rparr> in (generateHuntGuess rs p1, p1))
      | [] \<Rightarrow> (let p1 = p\<lparr>mode := Hunt\<rparr> in (generateHuntGuess rs p1, p1)))"

text \<open>
  One step of the \<open>forEach\<close> of \<open>addAdjacentTargets\<close>, on the queue. The neighbour
  \<open>(r, c)\<close> is a pair of JavaScript numbers; on a valid one both are integers.
\<close>

definition add_target :: "board \<Rightarrow> string list \<Rightarrow> jsnum \<times> jsnum \<Rightarrow> string list" where
  "add_target ob queue rc =
     (case rc of
        (Some r, Some c) \<Rightarrow>
          if isValidCoordinate ob (Some r) (Some c) then
            (let adjCoordinate = show_int r @ show_int c
             in if \<not> hasBeenGuessed ob adjCoordinate \<and> adjCoordinate \<notin> set queue
                then queue @ [adjCoordinate] else queue)
          else queue
      | _ \<Rightarrow> queue)"

definition addAdjacentTargets :: "string \<Rightarrow> 'a cpu_player_scheme \<Rightarrow> error + 'a cpu_player_scheme" where
  "addAdjacentTargets coordinate p =
     (case parseCoordinate coordinate of
        Inl e \<Rightarrow> Inl e
      | Inr (row, col) \<Rightarrow>
          (let adjacent = [(map_option (\<lambda>r. r - 1) row, col),
                           (map_option (\<lambda>r. r + 1) row, col),
                           (row, map_option (\<lambda>c. c - 1) col),
                           (row, map_option (\<lambda>c. c + 1) col)]
           in Inr (p\<lparr>targetQueue := foldl (add_target (opponentBoard p)) (targetQueue p) adjacent\<rparr>)))"

definition processGuessResult :: "string \<Rightarrow> guess_result \<Rightarrow> 'a cpu_player_scheme \<Rightarrow> error + 'a cpu_player_scheme" where
  "processGuessResult coordinate result p =
     (case parseCoordinate coordinate of
        Inl e \<Rightarrow> Inl e
      | Inr (row, col) \<Rightarrow>
          (let ob1 = (opponentBoard p)\<lparr>guesses := insert coordinate (guesses (opponentBoard p))\<rparr>
           in if r_hit result then
                (case grid_write (grid ob1) row col HitMark of
                   Inl e \<Rightarrow> Inl e
                 | Inr g \<Rightarrow>
                     (let p1 = p\<lparr>opponentBoard := ob1\<lparr>grid := g\<rparr>, lastHit := Some coordinate\<rparr>
                      in if r_sunk result then Inr (p1\<lparr>mode := Hunt, targetQueue := []\<rparr>)
                         else addAdjacentTargets coordinate (p1\<lparr>mode := Target\<rparr>)))
              else
                (case grid_write (grid ob1) row col MissMark of
                   Inl e \<Rightarrow> Inl e
                 | Inr g \<Rightarrow>
                     (let p1 = p\<lparr>opponentBoard := ob1\<lparr>grid := g\<rparr>\<rparr>
                      in if mode p1 = Target \<and> targetQueue p1 = [] then Inr (p1\<lparr>mode := Hunt\<rparr>)
                         else Inr p1))))"

definition getMode :: "'a cpu_player_scheme \<Rightarrow> mode" where
  "getMode p = mode p"

definition getTargetQueueLength :: "'a cpu_player_scheme \<Rightarrow> nat" where
  "getTargetQueueLength p = length (targetQueue p)"

section \<open>Game.js\<close>

record game =
  boardSize :: nat
  numShips :: nat
  shipLength :: nat
  humanPlayer :: player
  cpuPlayer :: cpu_player
  gameOver :: bool

text \<open>
  The callback of \<open>handlePlayerTurn\<close>, from the point where the line read from the
  terminal has been trimmed. The calls to the display are left out. The result is the
  boolean the promise resolves to and the game after the turn.
\<close>

definition handlePlayerTurn :: "string \<Rightarrow> game \<Rightarrow> error + (bool \<times> game)" where
  "handlePlayerTurn input g =
     (case validateGuess input (humanPlayer g) of
        Invalid msg \<Rightarrow> Inr (False, g)
      | Valid coordinate \<Rightarrow>
          (case receiveGuess coordinate (cpuPlayer g) of
             Inl e \<Rightarrow> Inl e
           | Inr (result, cpu') \<Rightarrow>
               (case processGuess coordinate (opponentBoard (humanPlayer g)) of
                  Inl e \<Rightarrow> Inl e
                | Inr (tracking_result, ob') \<Rightarrow>
                    Inr (True, g\<lparr>cpuPlayer := cpu',
                                 humanPlayer := (humanPlayer g)\<lparr>opponentBoard := ob'\<rparr>\<rparr>))))"

text \<open>
  The constructor reads its three options with \<open>||\<close>, so a missing option and the
  number 0 both give the default.
\<close>

definition option_or :: "nat option \<Rightarrow> nat \<Rightarrow> nat" where
  "option_or opt d = (case opt of None \<Rightarrow> d | Some n \<Rightarrow> if n = 0 then d else n)"

definition Game_new :: "nat option \<Rightarrow> nat option \<Rightarrow> nat option \<Rightarrow> game" where
  "Game_new optBoardSize optNumShips optShipLength =
     \<lparr>boardSize = option_or optBoardSize 10,
      numShips = option_or optNumShips 3,
      shipLength = option_or optShipLength 3,
      humanPlayer = Player_new ''Player'',
      cpuPlayer = CPUPlayer_new ''CPU'',
      gameOver = False\<rparr>"

text \<open>
  \<open>setupPlayers\<close> places the human's ships with the draws \<open>rs_human\<close> and then the
  CPU's with the draws \<open>rs_cpu\<close>. An error is thrown again with its message prefixed;
  the message of an engine \<open>TypeError\<close> is not modelled and is left empty.
\<close>

definition rethrow_setup :: "error \<Rightarrow> error" where
  "rethrow_setup e =
     (case e of
        Error msg \<Rightarrow> Error (''Failed to setup player boards: '' @ msg)
      | TypeError \<Rightarrow> Error ''Failed to setup player boards: '')"

definition setupPlayers :: "rng \<Rightarrow> rng \<Rightarrow> game \<Rightarrow> error + game" where
  "setupPlayers rs_human rs_cpu g =
     (case setupBoard (numShips g) (shipLength g) rs_human (humanPlayer g) of
        Inl e \<Rightarrow> Inl (rethrow_setup e)
      | Inr human \<Rightarrow>
          (case setupBoard (numShips g) (shipLength g) rs_cpu (cpuPlayer g) of
             Inl e \<Rightarrow> Inl (rethrow_setup e)
           | Inr cpu \<Rightarrow> Inr (g\<lparr>humanPlayer := human, cpuPlayer := cpu\<rparr>)))"

section \<open>Well-formed objects and the coordinates of a board\<close>

text \<open>The flag array of a ship is as long as its location array.\<close>

definition ship_wf :: "ship \<Rightarrow> bool" where
  "ship_wf s = (length (hits s) = length (locations s))"

text \<open>The grid of a board has as many rows as its size says, as \<open>createGrid\<close> makes it.\<close>

definition grid_rows_ok :: "board \<Rightarrow> bool" where
  "grid_rows_ok b = (length (grid b) = sizeB b)"

text \<open>
  A coordinate string is on a board when it has two characters and both parse to
  numbers that \<open>isValidCoordinate\<close> accepts.
\<close>

definition on_board :: "board \<Rightarrow> string \<Rightarrow> bool" where
  "on_board b coordinate =
     (case parseCoordinate coordinate of
        Inl e \<Rightarrow> False
      | Inr (row, col) \<Rightarrow> isValidCoordinate b row col)"

text \<open>
  The condition that the constructor establishes and that the turn cycle of the game,
  \<open>generateGuess\<close> followed by \<open>processGuessResult\<close>, keeps: the tracking board has
  size 10 and a grid of 10 rows, and in hunt mode the target queue is empty. It is not
  a property of every \<open>CPUPlayer\<close> object: \<open>addAdjacentTargets\<close> called on its own in
  hunt mode fills the queue and leaves the mode as it is.
\<close>

definition cpu_inv :: "cpu_player \<Rightarrow> bool" where
  "cpu_inv p =
     (sizeB (opponentBoard p) = 10 \<and> length (grid (opponentBoard p)) = 10
      \<and> (mode p = Hunt \<longrightarrow> targetQueue p = []))"

text \<open>
  The target queue the specification expects after a hit that does not sink: the
  orthogonal neighbours of the cell in the order up, down, left, right, those of them
  that are on the 10 by 10 board, written as coordinate strings, and of these the ones
  not yet in the guessed-set.
\<close>

definition orthogonal_neighbours :: "int \<Rightarrow> int \<Rightarrow> (int \<times> int) list" where
  "orthogonal_neighbours row col = [(row - 1, col), (row + 1, col), (row, col - 1), (row, col + 1)]"

definition in_bounds10 :: "int \<times> int \<Rightarrow> bool" where
  "in_bounds10 rc = (0 \<le> fst rc \<and> fst rc < 10 \<and> 0 \<le> snd rc \<and> snd rc < 10)"

definition coordinate_of :: "int \<times> int \<Rightarrow> string" where
  "coordinate_of rc = show_int (fst rc) @ show_int (snd rc)"

definition expected_targets :: "string set \<Rightarrow> int \<Rightarrow> int \<Rightarrow> string list" where
  "expected_targets guessed row col =
     filter (\<lambda>s. s \<notin> guessed)
       (map coordinate_of (filter in_bounds10 (orthogonal_neighbours row col)))"

text \<open>
  A location is free on a board when \<open>canPlaceShip\<close> accepts it on its own: it is a
  coordinate of the board and its cell is water. The fleet of a board is in order when
  the list of all cells of its ships has no repetition, so that no two ships share a
  coordinate and no ship lists one twice, and every such cell is a coordinate of the
  board that is not free.
\<close>

definition cell_free :: "board \<Rightarrow> string \<Rightarrow> bool" where
  "cell_free b location = (canPlaceShip [location] b = Inr True)"

definition ships_ok :: "board \<Rightarrow> bool" where
  "ships_ok b =
     (distinct (concat (map locations (ships b)))
      \<and> (\<forall>s\<in>set (ships b). \<forall>l\<in>set (locations s). on_board b l \<and> \<not> cell_free b l))"

text \<open>The locations that attempt number \<open>attempts\<close> of the placement loop tries.\<close>

definition attempt_locations :: "nat \<Rightarrow> rng \<Rightarrow> nat \<Rightarrow> board \<Rightarrow> string list" where
  "attempt_locations len rs attempts b =
     (let orient = (if random_lt_half (rs (3 * attempts)) then Horizontal else Vertical);
          (startRow, startCol) =
             getRandomStartPosition len orient
               (rs (3 * attempts + 1)) (rs (3 * attempts + 2)) b
      in generateShipLocations startRow startCol len orient)"

section \<open>Properties of Ship\<close>

lemma indexOf_Some_iff:
  "indexOf xs x = Some i \<longleftrightarrow> i < length xs \<and> xs ! i = x \<and> (\<forall>j<i. xs ! j \<noteq> x)"
proof (induction xs arbitrary: i)
  case Nil
  then show ?case by simp
next
  case (Cons y ys)
  show ?case
  proof (cases "y = x")
    case True
    then show ?thesis by (cases i) auto
  next
    case False
    then show ?thesis using Cons.IH
      apply (cases i)
       apply auto
      subgoal for n j by (cases j) auto
      done
  qed
qed

lemma indexOf_None_iff: "indexOf xs x = None \<longleftrightarrow> x \<notin> set xs"
  by (induction xs) auto

lemma indexOf_less: "indexOf xs x = Some i \<Longrightarrow> i < length xs"
  by (simp add: indexOf_Some_iff)

lemma Ship_new_wf: "ship_wf (Ship_new locs)"
  by (simp add: ship_wf_def Ship_new_def)

lemma hit_locations: "locations (snd (hit c s)) = locations s"
  by (simp add: hit_def split: option.splits)

lemma hit_length: "ship_wf s \<Longrightarrow> ship_wf (snd (hit c s))"
  by (auto simp: hit_def ship_wf_def split: option.splits dest: indexOf_less)

lemma hit_flags:
  assumes "ship_wf s" and "i < length (locations s)"
  shows "hits (snd (hit c s)) ! i = (hits s ! i \<or> indexOf (locations s) c = Some i)"
  using assms
  by (auto simp: hit_def ship_wf_def nth_list_update split: option.splits dest: indexOf_less)

lemma hit_all_locations: "locations (hit_all cs s) = locations s"
  by (induction cs arbitrary: s) (simp_all add: hit_locations)

lemma hit_all_wf: "ship_wf s \<Longrightarrow> ship_wf (hit_all cs s)"
  by (induction cs arbitrary: s) (simp_all add: hit_length)

lemma hit_all_flags:
  assumes "ship_wf s" and "i < length (locations s)"
  shows "hits (hit_all cs s) ! i = (hits s ! i \<or> (\<exists>c\<in>set cs. indexOf (locations s) c = Some i))"
  using assms
proof (induction cs arbitrary: s)
  case Nil
  then show ?case by simp
next
  case (Cons c cs)
  have "hits (hit_all cs (snd (hit c s))) ! i =
      (hits (snd (hit c s)) ! i \<or> (\<exists>c'\<in>set cs. indexOf (locations (snd (hit c s))) c' = Some i))"
    using Cons.prems by (intro Cons.IH) (simp_all add: hit_length hit_locations)
  then show ?case using Cons.prems by (auto simp: hit_flags hit_locations)
qed

lemma isSunk_nth: "isSunk s \<longleftrightarrow> (\<forall>i<length (hits s). hits s ! i)"
  by (simp add: isSunk_def list_all_length)

lemma first_occurrence_iff:
  "(\<forall>i<length xs. \<exists>c\<in>set cs. indexOf xs c = Some i) \<longleftrightarrow> distinct xs \<and> set xs \<subseteq> set cs"
proof
  assume all: "\<forall>i<length xs. \<exists>c\<in>set cs. indexOf xs c = Some i"
  have d: "distinct xs"
    unfolding distinct_conv_nth
  proof (intro allI impI)
    fix i j assume ij: "i < length xs" "j < length xs" "i \<noteq> j"
    obtain c where c: "indexOf xs c = Some i" using all ij by blast
    obtain c' where c': "indexOf xs c' = Some j" using all ij by blast
    show "xs ! i \<noteq> xs ! j"
    proof
      assume e: "xs ! i = xs ! j"
      from c c' e have "c = c'" by (simp add: indexOf_Some_iff)
      with c c' ij show False by simp
    qed
  qed
  have s: "set xs \<subseteq> set cs"
  proof
    fix x assume "x \<in> set xs"
    then obtain i where i: "i < length xs" "xs ! i = x" by (auto simp: in_set_conv_nth)
    then obtain c where "c \<in> set cs" "indexOf xs c = Some i" using all by blast
    then show "x \<in> set cs" using i by (auto simp: indexOf_Some_iff)
  qed
  from d s show "distinct xs \<and> set xs \<subseteq> set cs" ..
next
  assume ds: "distinct xs \<and> set xs \<subseteq> set cs"
  show "\<forall>i<length xs. \<exists>c\<in>set cs. indexOf xs c = Some i"
  proof (intro allI impI)
    fix i assume i: "i < length xs"
    have "indexOf xs (xs ! i) = Some i"
      using ds i by (auto simp: indexOf_Some_iff nth_eq_iff_index_eq)
    moreover have "xs ! i \<in> set cs" using ds i by auto
    ultimately show "\<exists>c\<in>set cs. indexOf xs c = Some i" by blast
  qed
qed

lemma hit_all_new_length: "length (hits (hit_all cs (Ship_new locs))) = length locs"
  using hit_all_wf [OF Ship_new_wf, of cs locs]
  by (simp add: ship_wf_def hit_all_locations) (simp add: Ship_new_def)

lemma isSunk_hit_all_new:
  "isSunk (hit_all cs (Ship_new locs)) \<longleftrightarrow> distinct locs \<and> set locs \<subseteq> set cs"
proof -
  let ?s = "hit_all cs (Ship_new locs)"
  have fl: "hits ?s ! i = (\<exists>c\<in>set cs. indexOf locs c = Some i)" if "i < length locs" for i
    using hit_all_flags [OF Ship_new_wf, of i locs cs] that by (simp add: Ship_new_def)
  have "isSunk ?s \<longleftrightarrow> (\<forall>i<length locs. \<exists>c\<in>set cs. indexOf locs c = Some i)"
    by (simp add: isSunk_nth hit_all_new_length fl)
  then show ?thesis by (simp add: first_occurrence_iff)
qed

text \<open>
  Claim C8. A ship is sunk exactly when every one of its hit flags is true. For a ship
  created from N distinct cells and any sequence of \<open>hit\<close> calls: it has N flags; once
  all N cells have been hit it is sunk; when exactly N - 1 of its cells have been hit
  (N at least 1) it is not sunk; and the ship created from the empty sequence is sunk.
\<close>

theorem isSunk_iff_every_flag:
  assumes "distinct locs"
  shows "(isSunk s \<longleftrightarrow> (\<forall>i<length (hits s). hits s ! i))
       \<and> length (hits (hit_all cs (Ship_new locs))) = length locs
       \<and> (set locs \<subseteq> set cs \<longrightarrow> isSunk (hit_all cs (Ship_new locs)))
       \<and> (locs \<noteq> [] \<and> card (set cs \<inter> set locs) = length locs - 1
            \<longrightarrow> \<not> isSunk (hit_all cs (Ship_new locs)))
       \<and> isSunk (Ship_new [])"
proof -
  have "\<not> set locs \<subseteq> set cs" if ne: "locs \<noteq> []" and c: "card (set cs \<inter> set locs) = length locs - 1"
  proof
    assume "set locs \<subseteq> set cs"
    then have "set cs \<inter> set locs = set locs" by auto
    then have "card (set cs \<inter> set locs) = length locs"
      using assms by (simp add: distinct_card)
    with c ne show False by (cases locs) simp_all
  qed
  moreover have "isSunk (Ship_new [])"
    by (simp add: isSunk_def Ship_new_def)
  ultimately show ?thesis
    using assms by (simp add: isSunk_nth [of s] isSunk_hit_all_new hit_all_new_length)
qed

theorem isSunk_iff_every_flag_witness:
  "distinct [''00'', ''01'', ''02'']
   \<and> isSunk (hit_all [''01'', ''00'', ''02''] (Ship_new [''00'', ''01'', ''02'']))
   \<and> \<not> isSunk (hit_all [''01'', ''00''] (Ship_new [''00'', ''01'', ''02'']))"
proof -
  have d: "distinct [''00'', ''01'', ''02'']" by simp
  have c: "card (set [''01'', ''00''] \<inter> set [''00'', ''01'', ''02'']) = 2" by simp
  show ?thesis
    using d c
      isSunk_iff_every_flag [OF d, of "Ship_new []" "[''01'', ''00'', ''02'']"]
      isSunk_iff_every_flag [OF d, of "Ship_new []" "[''01'', ''00'']"]
    by simp
qed

text \<open>
  Claim C7, as the code has it. The constructor checks nothing: from the empty sequence
  and from a sequence with a repeated coordinate it makes a ship like from any other.
\<close>

theorem Ship_new_accepts_empty_and_duplicates:
  "Ship_new [] = \<lparr>locations = [], hits = []\<rparr>
   \<and> Ship_new [''00'', ''00''] = \<lparr>locations = [''00'', ''00''], hits = [False, False]\<rparr>"
  by (simp add: Ship_new_def)

text \<open>
  Claim C7, amended. Ship creation never fails: for every coordinate sequence the
  constructor makes a ship with exactly these locations and one false flag for each.
  What the shape decides is only whether the ship can be sunk: after any sequence of
  hits it is sunk exactly when its locations are distinct and all of them were hit, so
  the empty ship is sunk from the start and a ship with a repeated coordinate never is.
\<close>

theorem Ship_new_never_fails:
  "locations (Ship_new locs) = locs
   \<and> hits (Ship_new locs) = replicate (length locs) False
   \<and> (isSunk (hit_all cs (Ship_new locs)) \<longleftrightarrow> distinct locs \<and> set locs \<subseteq> set cs)"
  by (simp add: isSunk_hit_all_new) (simp add: Ship_new_def)

section \<open>Properties of guess resolution\<close>

text \<open>
  Claim C1. For every board and every coordinate already in its guessed-set,
  \<open>processGuess\<close> returns \<open>{hit: false, sunk: false, alreadyGuessed: true}\<close> and the
  board after the call is the board before it: grid, guessed-set and the ships with
  their hit flags are unchanged.
\<close>

theorem processGuess_repeat_is_noop:
  assumes "coordinate \<in> guesses b"
  shows "\<exists>b'. processGuess coordinate b =
            Inr (\<lparr>r_hit = False, r_sunk = False, r_alreadyGuessed = True, r_ship = None\<rparr>, b')
          \<and> grid b' = grid b \<and> guesses b' = guesses b
          \<and> map hits (ships b') = map hits (ships b) \<and> b' = b"
  using assms by (simp add: processGuess_def)

lemmas eval_defs =
  placeShipsRandomly_def place_loop.simps maxAttempts_def random_lt_half_def
  getRandomStartPosition_def random_floor_def generateShipLocations_def
  show_int_def show_nat.simps digit_chars_def parseCoordinate_def parseInt_def
  isValidCoordinate_def Board_new_def createGrid_def grid_read_def upt_rec
  placeShip_def Ship_new_def grid_write_def row_write_def
  setupPlayers_def Game_new_def option_or_def setupBoard_def Player_new_def
  CPUPlayer_new_def receiveGuess_def processGuess_def hit_def isSunk_def
  handlePlayerTurn_def validateGuess_def hasBeenGuessed_def

theorem processGuess_repeat_is_noop_witness:
  "(case processGuess ''23'' (Board_new 10) of
      Inl e \<Rightarrow> False
    | Inr (first, b) \<Rightarrow>
        ''23'' \<in> guesses b
        \<and> processGuess ''23'' b =
            Inr (\<lparr>r_hit = False, r_sunk = False, r_alreadyGuessed = True, r_ship = None\<rparr>, b))"
proof -
  obtain first b where b: "processGuess ''23'' (Board_new 10) = Inr (first, b)"
    and g: "''23'' \<in> guesses b"
    by (simp add: eval_defs)
  show ?thesis
    using processGuess_repeat_is_noop [OF g] by (simp add: b g)
qed

text \<open>
  Claim C3, on the code. With one ship of length 3 per side and every random draw 0,
  both fleets lie on \<open>00\<close>, \<open>01\<close>, \<open>02\<close>. The human guesses \<open>00\<close>: the CPU's board
  answers with a hit, and after \<open>handlePlayerTurn\<close> the human's tracking board holds
  a miss at that cell. The turn resolves the guess a second time against the tracking
  board, which owns no ships, instead of recording the result it has in hand.
\<close>

theorem handlePlayerTurn_records_hit_as_miss:
  "(case setupPlayers (\<lambda>i. 0) (\<lambda>i. 0) (Game_new None (Some 1) None) of
      Inl e \<Rightarrow> False
    | Inr g \<Rightarrow>
        (case receiveGuess ''00'' (cpuPlayer g) of
           Inl e \<Rightarrow> False
         | Inr (result, cpu') \<Rightarrow> r_hit result)
        \<and> (case handlePlayerTurn ''00'' g of
              Inl e \<Rightarrow> False
            | Inr (valid, g') \<Rightarrow>
                valid
                \<and> grid_read (grid (opponentBoard (humanPlayer g'))) (Some 0) (Some 0)
                    = Inr MissMark))"
  by (simp add: eval_defs)

section \<open>Properties of the CPU player\<close>

lemma processGuessResult_sunk_state:
  assumes "r_hit res" "r_sunk res" "processGuessResult c res p = Inr p'"
  shows "mode p' = Hunt \<and> targetQueue p' = []"
  using assms
  by (auto simp: processGuessResult_def Let_def split: sum.splits prod.splits)

lemma processGuessResult_sunk_returns:
  assumes "r_hit res" "r_sunk res" "grid_rows_ok (opponentBoard p)" "on_board (opponentBoard p) c"
  shows "\<exists>p'. processGuessResult c res p = Inr p'"
  using assms
  by (auto simp: processGuessResult_def Let_def on_board_def grid_rows_ok_def isValidCoordinate_def
      grid_write_def split: sum.splits prod.splits option.splits)

text \<open>
  Claim C5. For every AI state, whatever its mode, target queue and last hit, and
  every coordinate: when \<open>processGuessResult\<close> is given a result with hit and sunk
  both true and returns, the mode is Hunt and the target queue is empty. It does return
  for every coordinate on the tracking board, provided the board's grid has the rows
  its size says.
\<close>

theorem processGuessResult_sunk_resets:
  assumes "r_hit res" and "r_sunk res"
  shows "(\<forall>p'. processGuessResult c res p = Inr p' \<longrightarrow> mode p' = Hunt \<and> targetQueue p' = [])
       \<and> (grid_rows_ok (opponentBoard p) \<and> on_board (opponentBoard p) c
            \<longrightarrow> (\<exists>p'. processGuessResult c res p = Inr p'))"
  using assms processGuessResult_sunk_state [of res c p] processGuessResult_sunk_returns [of res p c]
  by blast

theorem processGuessResult_sunk_resets_witness:
  "(case processGuessResult ''45''
           \<lparr>r_hit = True, r_sunk = True, r_alreadyGuessed = False, r_ship = None\<rparr>
           ((CPUPlayer_new ''CPU'')\<lparr>mode := Target, targetQueue := [''35'', ''55''],
                                     lastHit := Some ''44''\<rparr>) of
      Inl e \<Rightarrow> False
    | Inr p' \<Rightarrow> mode p' = Hunt \<and> targetQueue p' = [])"
proof -
  let ?res = "\<lparr>r_hit = True, r_sunk = True, r_alreadyGuessed = False, r_ship = None\<rparr>"
  let ?p = "(CPUPlayer_new ''CPU'')\<lparr>mode := Target, targetQueue := [''35'', ''55''],
                                    lastHit := Some ''44''\<rparr>"
  have h: "r_hit ?res" and s: "r_sunk ?res" by simp_all
  have g: "grid_rows_ok (opponentBoard ?p)"
    by (simp add: grid_rows_ok_def CPUPlayer_new_def Board_new_def createGrid_def)
  have o: "on_board (opponentBoard ?p) ''45''"
    by (simp add: on_board_def eval_defs)
  from processGuessResult_sunk_resets [OF h s, of "''45''" ?p] g o
  obtain p' where "processGuessResult ''45'' ?res ?p = Inr p'" "mode p' = Hunt \<and> targetQueue p' = []"
    by blast
  then show ?thesis by simp
qed

subsection \<open>Hunt guesses\<close>

lemma floor_product_bound:
  assumes "0 \<le> (m::int)" "m < b" "0 < n"
  shows "(m * n) div b < n"
proof -
  have b: "0 < b" using assms by simp
  have "(m * n) div b * b \<le> m * n"
    using pos_mod_sign [OF b, of "m * n"] div_mult_mod_eq [of "m * n" b] by linarith
  moreover have "m * n < n * b" using assms by (simp add: mult.commute)
  ultimately have "(m * n) div b * b < n * b" by linarith
  then show ?thesis using b by (simp add: mult_less_cancel_right)
qed

lemma random_floor_range:
  assumes "0 < n"
  shows "0 \<le> random_floor k n \<and> random_floor k n < n"
proof -
  let ?m = "int (k mod 2 ^ 53)"
  have m: "0 \<le> ?m" "?m < 2 ^ 53" by simp_all
  have "0 \<le> ?m * n" using m assms by simp
  then have lo: "0 \<le> (?m * n) div 2 ^ 53" by (simp add: pos_imp_zdiv_nonneg_iff)
  have hi: "(?m * n) div 2 ^ 53 < n" using m assms by (intro floor_product_bound) simp_all
  from lo hi show ?thesis by (simp add: random_floor_def)
qed

lemma random_floor_onto:
  assumes "0 \<le> j" "j < n" "n \<le> 2 ^ 53"
  shows "\<exists>k. random_floor k n = j"
proof -
  define B :: int where "B = 2 ^ 53"
  define a where "a = j * B + n - 1"
  define K where "K = a div n"
  have B: "0 < B" "n \<le> B" using assms by (simp_all add: B_def)
  have n: "0 < n" using assms by simp
  have md: "0 \<le> a mod n" "a mod n < n" using n by simp_all
  have eq: "K * n + a mod n = a" by (simp add: K_def)
  have lo: "j * B \<le> K * n" using eq md unfolding a_def by linarith
  have hi: "K * n < j * B + B" using eq md B unfolding a_def by linarith
  have "0 \<le> j * B" using assms B by simp
  then have "0 \<le> a" using n unfolding a_def by linarith
  then have K0: "0 \<le> K" using n by (simp add: K_def pos_imp_zdiv_nonneg_iff)
  have "j * B + B \<le> n * B"
  proof -
    have "(j + 1) * B \<le> n * B" using assms B by (intro mult_right_mono) simp_all
    then show ?thesis by (simp add: algebra_simps)
  qed
  then have "K * n < B * n" using hi by (simp add: mult.commute)
  then have KB: "K < B" using n by (simp add: mult_less_cancel_right)
  have "K * n = B * j + (K * n - j * B)" by (simp add: mult.commute)
  then have d: "(K * n) div B = j"
    by (rule int_div_pos_eq) (use lo hi in simp_all)
  have "nat K < 2 ^ 53" using K0 KB by (simp add: B_def nat_less_iff)
  then have "int (nat K mod 2 ^ 53) = K" using K0 by simp
  then have "random_floor (nat K) n = j" using d by (simp add: random_floor_def B_def)
  then show ?thesis ..
qed

lemma digit_chars_nth_inj:
  "i < 10 \<Longrightarrow> j < 10 \<Longrightarrow> digit_chars ! i = digit_chars ! j \<longleftrightarrow> i = j"
proof -
  have "distinct digit_chars" "length digit_chars = 10" by (simp_all add: digit_chars_def)
  then show "i < 10 \<Longrightarrow> j < 10 \<Longrightarrow> digit_chars ! i = digit_chars ! j \<longleftrightarrow> i = j"
    by (simp add: nth_eq_iff_index_eq)
qed

lemma show_nat_digit: "n < 10 \<Longrightarrow> show_nat n = [digit_chars ! n]"
  by (simp add: show_nat.simps)

lemma show_int_digit: "0 \<le> a \<Longrightarrow> a < 10 \<Longrightarrow> show_int a = show_nat (nat a)"
  by (simp add: show_int_def)

lemma scan_order_mem: "r < 10 \<Longrightarrow> c < 10 \<Longrightarrow> show_nat r @ show_nat c \<in> set scan_order"
  unfolding scan_order_def by (auto intro!: bexI [of _ r])

lemma scan_order_cases: "x \<in> set scan_order \<Longrightarrow> \<exists>r<10. \<exists>c<10. x = show_nat r @ show_nat c"
  unfolding scan_order_def by auto blast

lemma hunt_loop_result:
  assumes "hunt_loop rs ob a = (c, n)" "a < maxHuntAttempts"
  shows "n \<le> maxHuntAttempts \<and> (n < maxHuntAttempts \<longrightarrow> \<not> hasBeenGuessed ob c) \<and> c \<in> set scan_order"
  using assms
proof (induction rs ob a rule: hunt_loop.induct)
  case (1 rs ob attempts)
  let ?row = "random_floor (rs (2 * attempts)) 10"
  let ?col = "random_floor (rs (2 * attempts + 1)) 10"
  let ?coord = "show_int ?row @ show_int ?col"
  have r: "0 \<le> ?row" "?row < 10" and cl: "0 \<le> ?col" "?col < 10"
    by (simp_all add: random_floor_range)
  have "nat ?row < 10" "nat ?col < 10" using r cl by linarith+
  then have mem: "?coord \<in> set scan_order"
    using r cl scan_order_mem [of "nat ?row" "nat ?col"] by (simp add: show_int_digit)
  show ?case
  proof (cases "hasBeenGuessed ob ?coord \<and> attempts + 1 < maxHuntAttempts")
    case True
    then have "hunt_loop rs ob (attempts + 1) = (c, n)"
      using "1.prems"(1) by (subst (asm) hunt_loop.simps) (simp add: Let_def)
    then show ?thesis using "1.IH" [OF refl refl refl refl] True by simp
  next
    case False
    then have "(c, n) = (?coord, attempts + 1)"
      using "1.prems"(1) by (subst (asm) hunt_loop.simps) (auto simp: Let_def split: if_splits)
    then show ?thesis using False "1.prems"(2) mem by auto
  qed
qed

lemma generateHuntGuess_fresh:
  assumes "\<exists>x\<in>set scan_order. \<not> hasBeenGuessed (opponentBoard p) x"
  shows "\<not> hasBeenGuessed (opponentBoard p) (generateHuntGuess rs p)
       \<and> generateHuntGuess rs p \<in> set scan_order"
proof -
  obtain c n where l: "hunt_loop rs (opponentBoard p) 0 = (c, n)" by (cases "hunt_loop rs (opponentBoard p) 0")
  have res: "n \<le> maxHuntAttempts \<and> (n < maxHuntAttempts \<longrightarrow> \<not> hasBeenGuessed (opponentBoard p) c)
      \<and> c \<in> set scan_order"
    using hunt_loop_result [OF l] by (simp add: maxHuntAttempts_def)
  show ?thesis
  proof (cases "n \<ge> maxHuntAttempts")
    case True
    from assms obtain y where y: "find (\<lambda>coord. \<not> hasBeenGuessed (opponentBoard p) coord) scan_order = Some y"
      by (cases "find (\<lambda>coord. \<not> hasBeenGuessed (opponentBoard p) coord) scan_order")
         (auto simp: find_None_iff)
    then have "\<not> hasBeenGuessed (opponentBoard p) y \<and> y \<in> set scan_order"
      by (auto simp: find_Some_iff)
    then show ?thesis using True l y by (simp add: generateHuntGuess_def)
  next
    case False
    then show ?thesis using res l by (simp add: generateHuntGuess_def)
  qed
qed

lemma skip_guessed_result:
  "skip_guessed ob c q = (c', q') \<Longrightarrow> hasBeenGuessed ob c' \<Longrightarrow> q' = []"
  by (induction ob c q rule: skip_guessed.induct) (auto split: if_splits)

lemma generateGuess_fresh:
  assumes ex: "\<exists>x\<in>set scan_order. \<not> hasBeenGuessed (opponentBoard p) x"
    and g: "generateGuess rs p = (c, p')"
  shows "\<not> hasBeenGuessed (opponentBoard p) c \<and> opponentBoard p' = opponentBoard p"
proof -
  have hunt: "\<not> hasBeenGuessed (opponentBoard p) (generateHuntGuess rs q)"
    if "opponentBoard q = opponentBoard p" for q :: "'a cpu_player_scheme"
    using generateHuntGuess_fresh [of q rs] ex that by simp
  show ?thesis
  proof (cases "targetQueue p")
    case Nil
    then show ?thesis using g hunt [of "p\<lparr>mode := Hunt\<rparr>"]
      by (auto simp: generateGuess_def Let_def)
  next
    case (Cons first queue)
    show ?thesis
    proof (cases "mode p = Target")
      case False
      then show ?thesis using g Cons hunt [of "p\<lparr>mode := Hunt\<rparr>"]
        by (auto simp: generateGuess_def Let_def)
    next
      case True
      obtain c1 q1 where sk: "skip_guessed (opponentBoard p) first queue = (c1, q1)"
        by (cases "skip_guessed (opponentBoard p) first queue")
      show ?thesis
        using g Cons True sk hunt [of "p\<lparr>targetQueue := q1, mode := Hunt\<rparr>"]
        by (auto simp: generateGuess_def Let_def split: if_splits)
    qed
  qed
qed

lemma unguessed_in_scan_order:
  assumes "\<exists>row<10. \<exists>col<10. show_nat row @ show_nat col \<notin> guesses ob"
  shows "\<exists>x\<in>set scan_order. \<not> hasBeenGuessed ob x"
  using assms scan_order_mem by (auto simp: hasBeenGuessed_def)

text \<open>
  Claim C6. When at least one coordinate of the 10 by 10 board is not in the tracking
  board's guessed-set, then for every outcome of the random draws \<open>generateHuntGuess\<close>
  returns a coordinate of the board that is not in the guessed-set. It is a total
  function: its retry loop makes at most 100 attempts, and the scan that follows goes
  once through \<open>scan_order\<close>, the coordinates in row-major order. In particular, when
  every coordinate except \<open>09\<close> has been guessed, it returns \<open>09\<close>.
\<close>

theorem generateHuntGuess_returns_unguessed:
  assumes "\<exists>row<10. \<exists>col<10. show_nat row @ show_nat col \<notin> guesses (opponentBoard p)"
  shows "generateHuntGuess rs p \<notin> guesses (opponentBoard p)
       \<and> (\<exists>row<10. \<exists>col<10. generateHuntGuess rs p = show_nat row @ show_nat col)
       \<and> snd (hunt_loop rs (opponentBoard p) 0) \<le> maxHuntAttempts
       \<and> (snd (hunt_loop rs (opponentBoard p) 0) = maxHuntAttempts
            \<longrightarrow> find (\<lambda>coord. coord \<notin> guesses (opponentBoard p)) scan_order
                  = Some (generateHuntGuess rs p))
       \<and> (set scan_order - {''09''} \<subseteq> guesses (opponentBoard p)
            \<longrightarrow> generateHuntGuess rs p = ''09'')"
proof -
  have scan: "find (\<lambda>coord. coord \<notin> guesses (opponentBoard p)) scan_order
      = Some (generateHuntGuess rs p)"
    if "snd (hunt_loop rs (opponentBoard p) 0) = maxHuntAttempts"
  proof -
    obtain y where "find (\<lambda>coord. coord \<notin> guesses (opponentBoard p)) scan_order = Some y"
      using unguessed_in_scan_order [OF assms]
      by (cases "find (\<lambda>coord. coord \<notin> guesses (opponentBoard p)) scan_order")
         (auto simp: find_None_iff hasBeenGuessed_def)
    then show ?thesis
      using that by (auto simp: generateHuntGuess_def hasBeenGuessed_def split: prod.splits)
  qed
  have fresh: "\<not> hasBeenGuessed (opponentBoard p) (generateHuntGuess rs p)"
    and mem: "generateHuntGuess rs p \<in> set scan_order"
    using generateHuntGuess_fresh [OF unguessed_in_scan_order [OF assms], of rs] by simp_all
  have bound: "snd (hunt_loop rs (opponentBoard p) 0) \<le> maxHuntAttempts"
    using hunt_loop_result [of rs "opponentBoard p" 0]
    by (cases "hunt_loop rs (opponentBoard p) 0") (simp add: maxHuntAttempts_def)
  have only: "generateHuntGuess rs p = ''09''"
    if "set scan_order - {''09''} \<subseteq> guesses (opponentBoard p)"
    using that fresh mem by (auto simp: hasBeenGuessed_def)
  show ?thesis
    using fresh mem bound only scan scan_order_cases [OF mem] by (simp add: hasBeenGuessed_def)
qed

theorem generateHuntGuess_returns_unguessed_witness:
  "(\<exists>row<10. \<exists>col<10. show_nat row @ show_nat col
       \<notin> guesses (opponentBoard ((CPUPlayer_new ''CPU'')
            \<lparr>opponentBoard := (Board_new 10)\<lparr>guesses := set scan_order - {''09''}\<rparr>\<rparr>)))
   \<and> generateHuntGuess (\<lambda>i. 0)
        ((CPUPlayer_new ''CPU'')
           \<lparr>opponentBoard := (Board_new 10)\<lparr>guesses := set scan_order - {''09''}\<rparr>\<rparr>) = ''09''"
proof -
  let ?p = "(CPUPlayer_new ''CPU'')
              \<lparr>opponentBoard := (Board_new 10)\<lparr>guesses := set scan_order - {''09''}\<rparr>\<rparr>"
  have free: "show_nat 0 @ show_nat 9 \<notin> guesses (opponentBoard ?p)"
    by (simp add: show_nat.simps digit_chars_def)
  have ex: "\<exists>row<10. \<exists>col<10. show_nat row @ show_nat col \<notin> guesses (opponentBoard ?p)"
  proof (intro exI conjI)
    show "(0::nat) < 10" by simp
    show "(9::nat) < 10" by simp
    show "show_nat 0 @ show_nat 9 \<notin> guesses (opponentBoard ?p)" by (rule free)
  qed
  have all: "set scan_order - {''09''} \<subseteq> guesses (opponentBoard ?p)" by simp
  show ?thesis
    using ex all generateHuntGuess_returns_unguessed [OF ex, of "\<lambda>i. 0"] by blast
qed

text \<open>
  Claim C10. For every CPU state, in either mode and with any target queue, whose
  tracking board still has an unguessed coordinate of the 10 by 10 board, and for every
  outcome of the random draws, the coordinate \<open>generateGuess\<close> returns is not in the
  tracking board's guessed-set. The call leaves the tracking board as it was.
\<close>

theorem generateGuess_never_repeats:
  assumes "\<exists>row<10. \<exists>col<10. show_nat row @ show_nat col \<notin> guesses (opponentBoard p)"
  shows "fst (generateGuess rs p) \<notin> guesses (opponentBoard p)
       \<and> opponentBoard (snd (generateGuess rs p)) = opponentBoard p"
  using generateGuess_fresh [OF unguessed_in_scan_order [OF assms], of rs]
  by (cases "generateGuess rs p") (simp add: hasBeenGuessed_def)

theorem generateGuess_never_repeats_witness:
  "(\<exists>row<10. \<exists>col<10. show_nat row @ show_nat col
       \<notin> guesses (opponentBoard ((CPUPlayer_new ''CPU'')
            \<lparr>opponentBoard := (Board_new 10)\<lparr>guesses := {''35'', ''00''}\<rparr>,
             mode := Target, targetQueue := [''35'', ''00'', ''36'']\<rparr>)))
   \<and> fst (generateGuess (\<lambda>i. 0)
        ((CPUPlayer_new ''CPU'')
           \<lparr>opponentBoard := (Board_new 10)\<lparr>guesses := {''35'', ''00''}\<rparr>,
            mode := Target, targetQueue := [''35'', ''00'', ''36'']\<rparr>)) \<notin> {''35'', ''00''}"
proof -
  let ?p = "(CPUPlayer_new ''CPU'')
              \<lparr>opponentBoard := (Board_new 10)\<lparr>guesses := {''35'', ''00''}\<rparr>,
               mode := Target, targetQueue := [''35'', ''00'', ''36'']\<rparr>"
  have free: "show_nat 0 @ show_nat 9 \<notin> guesses (opponentBoard ?p)"
    by (simp add: show_nat.simps digit_chars_def)
  have ex: "\<exists>row<10. \<exists>col<10. show_nat row @ show_nat col \<notin> guesses (opponentBoard ?p)"
  proof (intro exI conjI)
    show "(0::nat) < 10" by simp
    show "(9::nat) < 10" by simp
    show "show_nat 0 @ show_nat 9 \<notin> guesses (opponentBoard ?p)" by (rule free)
  qed
  have "guesses (opponentBoard ?p) = {''35'', ''00''}" by simp
  then show ?thesis
    using ex generateGuess_never_repeats [OF ex, of "\<lambda>i. 0"] by metis
qed

subsection \<open>The turn cycle and the transition on a hit\<close>

lemma indexOf_nth_distinct: "distinct xs \<Longrightarrow> i < length xs \<Longrightarrow> indexOf xs (xs ! i) = Some i"
  by (auto simp: indexOf_Some_iff nth_eq_iff_index_eq)

lemma parseInt_digit: "n < 10 \<Longrightarrow> parseInt (digit_chars ! n) = Some (int n)"
proof -
  assume n: "n < 10"
  have "distinct digit_chars" "length digit_chars = 10" by (simp_all add: digit_chars_def)
  then show ?thesis using n by (simp add: parseInt_def indexOf_nth_distinct)
qed

lemma coordinate_of_digits:
  assumes "in_bounds10 (r, c)"
  shows "coordinate_of (r, c) = [digit_chars ! nat r, digit_chars ! nat c]"
proof -
  have "nat r < 10" "nat c < 10" using assms by (auto simp: in_bounds10_def)
  then show ?thesis
    using assms by (simp add: coordinate_of_def in_bounds10_def show_int_digit show_nat_digit)
qed

lemma parseCoordinate_coordinate_of:
  assumes "in_bounds10 (r, c)"
  shows "parseCoordinate (coordinate_of (r, c)) = Inr (Some r, Some c)"
proof -
  have "nat r < 10" "nat c < 10" using assms by (auto simp: in_bounds10_def)
  then show ?thesis
    using assms by (simp add: coordinate_of_digits parseCoordinate_def parseInt_digit in_bounds10_def)
qed

lemma coordinate_of_inj:
  assumes "in_bounds10 a" "in_bounds10 b" "coordinate_of a = coordinate_of b"
  shows "a = b"
proof -
  obtain r c where a: "a = (r, c)" by (cases a)
  obtain r' c' where b: "b = (r', c')" by (cases b)
  have "parseCoordinate (coordinate_of a) = parseCoordinate (coordinate_of b)"
    using assms(3) by simp
  then show ?thesis
    using assms(1,2) unfolding a b by (simp add: parseCoordinate_coordinate_of)
qed

lemma add_target_valid:
  assumes "sizeB ob = 10"
  shows "add_target ob q (Some r, Some c) =
     (if in_bounds10 (r, c) \<and> coordinate_of (r, c) \<notin> guesses ob \<and> coordinate_of (r, c) \<notin> set q
      then q @ [coordinate_of (r, c)] else q)"
  using assms
  by (simp add: add_target_def isValidCoordinate_def in_bounds10_def coordinate_of_def
      hasBeenGuessed_def Let_def)

lemma foldl_add_target:
  assumes "sizeB ob = 10" "distinct (map coordinate_of (filter in_bounds10 ns))"
  shows "foldl (add_target ob) q (map (\<lambda>(r, c). (Some r, Some c)) ns) =
     q @ filter (\<lambda>s. s \<notin> guesses ob \<and> s \<notin> set q) (map coordinate_of (filter in_bounds10 ns))"
  using assms(2)
proof (induction ns arbitrary: q)
  case Nil
  then show ?case by simp
next
  case (Cons n ns)
  obtain r c where n: "n = (r, c)" by (cases n)
  let ?rest = "map coordinate_of (filter in_bounds10 ns)"
  have d: "distinct ?rest" using Cons.prems by (simp split: if_splits)
  note IH = Cons.IH [OF d]
  show ?case
  proof (cases "in_bounds10 (r, c) \<and> coordinate_of (r, c) \<notin> guesses ob \<and> coordinate_of (r, c) \<notin> set q")
    case True
    then have notin: "coordinate_of (r, c) \<notin> set ?rest" using Cons.prems n by simp
    have ne: "s \<noteq> coordinate_of (r, c)" if "s \<in> set ?rest" for s
      using notin that by blast
    have "filter (\<lambda>s. s \<notin> guesses ob \<and> s \<notin> set (q @ [coordinate_of (r, c)])) ?rest
        = filter (\<lambda>s. s \<notin> guesses ob \<and> s \<notin> set q) ?rest"
      by (rule filter_cong [OF refl]) (simp add: ne)
    then show ?thesis using True n IH [of "q @ [coordinate_of (r, c)]"]
      by (simp add: add_target_valid [OF assms(1)])
  next
    case False
    then show ?thesis using n IH [of q]
      by (auto simp: add_target_valid [OF assms(1)])
  qed
qed

lemma grid_write_rows:
  "grid_write g row col v = Inr g' \<Longrightarrow> length g' = length g"
  by (auto simp: grid_write_def split: option.splits if_splits)

lemma generateGuess_inv:
  assumes "cpu_inv p" "generateGuess rs p = (c, p')"
  shows "cpu_inv p'"
proof (cases "targetQueue p")
  case Nil
  then show ?thesis using assms by (auto simp: generateGuess_def Let_def cpu_inv_def)
next
  case (Cons first queue)
  show ?thesis
  proof (cases "mode p = Target")
    case False
    then show ?thesis using assms Cons by (cases "mode p") (auto simp: cpu_inv_def)
  next
    case True
    obtain c1 q1 where sk: "skip_guessed (opponentBoard p) first queue = (c1, q1)"
      by (cases "skip_guessed (opponentBoard p) first queue")
    show ?thesis
      using assms Cons True sk skip_guessed_result [OF sk]
      by (auto simp: generateGuess_def Let_def cpu_inv_def split: if_splits)
  qed
qed

lemma addAdjacentTargets_fields:
  assumes "addAdjacentTargets c p = Inr p'"
  shows "mode p' = mode p \<and> opponentBoard p' = opponentBoard p"
  using assms by (auto simp: addAdjacentTargets_def Let_def split: sum.splits prod.splits)

lemma processGuessResult_inv:
  assumes "cpu_inv p" "processGuessResult c res p = Inr p'"
  shows "cpu_inv p'"
  using assms
  by (auto simp: processGuessResult_def Let_def cpu_inv_def
      split: sum.splits prod.splits if_splits
      dest!: grid_write_rows addAdjacentTargets_fields)

lemma CPUPlayer_new_inv: "cpu_inv (CPUPlayer_new n)"
  by (simp add: cpu_inv_def CPUPlayer_new_def Board_new_def createGrid_def)

lemma neighbours_distinct:
  "distinct (map coordinate_of (filter in_bounds10 (orthogonal_neighbours row col)))"
proof -
  have "distinct (filter in_bounds10 (orthogonal_neighbours row col))"
    by (rule distinct_filter) (simp add: orthogonal_neighbours_def)
  moreover have "inj_on coordinate_of (set (filter in_bounds10 (orthogonal_neighbours row col)))"
    by (rule inj_onI) (auto dest: coordinate_of_inj)
  ultimately show ?thesis by (simp add: distinct_map)
qed

lemma neighbours_not_self:
  assumes "in_bounds10 (row, col)"
    and "s \<in> set (map coordinate_of (filter in_bounds10 (orthogonal_neighbours row col)))"
  shows "s \<noteq> coordinate_of (row, col)"
proof
  assume e: "s = coordinate_of (row, col)"
  from assms(2) obtain n where n: "n \<in> set (orthogonal_neighbours row col)" "in_bounds10 n"
    "s = coordinate_of n" by auto
  then have "n = (row, col)" using e assms(1) coordinate_of_inj by metis
  then show False using n(1) by (simp add: orthogonal_neighbours_def)
qed

lemma addAdjacentTargets_queue:
  assumes "sizeB (opponentBoard p) = 10" "in_bounds10 (row, col)" "targetQueue p = []"
  shows "addAdjacentTargets (coordinate_of (row, col)) p =
     Inr (p\<lparr>targetQueue := filter (\<lambda>s. s \<notin> guesses (opponentBoard p))
              (map coordinate_of (filter in_bounds10 (orthogonal_neighbours row col)))\<rparr>)"
proof -
  have l: "[(map_option (\<lambda>r. r - 1) (Some row), Some col),
            (map_option (\<lambda>r. r + 1) (Some row), Some col),
            (Some row, map_option (\<lambda>c. c - 1) (Some col)),
            (Some row, map_option (\<lambda>c. c + 1) (Some col))]
         = map (\<lambda>(r, c). (Some r, Some c)) (orthogonal_neighbours row col)"
    by (simp add: orthogonal_neighbours_def)
  show ?thesis
    unfolding addAdjacentTargets_def parseCoordinate_coordinate_of [OF assms(2)]
    by (simp only: sum.case prod.case Let_def l assms(3)
        foldl_add_target [OF assms(1) neighbours_distinct]) simp
qed

lemma hit_not_sunk_transition:
  assumes q: "targetQueue p = []"
    and size10: "sizeB (opponentBoard p) = 10" and rows10: "length (grid (opponentBoard p)) = 10"
    and ib: "in_bounds10 (row, col)" and h: "r_hit res" and ns: "\<not> r_sunk res"
  shows "\<exists>p'. processGuessResult (coordinate_of (row, col)) res p = Inr p'
        \<and> mode p' = Target
        \<and> targetQueue p' = expected_targets (guesses (opponentBoard p)) row col"
proof -
  let ?c = "coordinate_of (row, col)"
  let ?ob1 = "(opponentBoard p)\<lparr>guesses := insert ?c (guesses (opponentBoard p))\<rparr>"
  have rows: "row < int (length (grid ?ob1))" "0 \<le> row"
    using rows10 ib by (simp_all add: in_bounds10_def)
  obtain g where g: "grid_write (grid ?ob1) (Some row) (Some col) HitMark = Inr g"
    using rows by (auto simp: grid_write_def)
  let ?p1 = "p\<lparr>opponentBoard := ?ob1\<lparr>grid := g\<rparr>, lastHit := Some ?c, mode := Target\<rparr>"
  have sz: "sizeB (opponentBoard ?p1) = 10" using size10 by simp
  have q1: "targetQueue ?p1 = []" using q by simp
  have filt: "filter (\<lambda>s. s \<notin> guesses (opponentBoard ?p1))
        (map coordinate_of (filter in_bounds10 (orthogonal_neighbours row col)))
      = expected_targets (guesses (opponentBoard p)) row col"
    unfolding expected_targets_def
    by (rule filter_cong [OF refl]) (use neighbours_not_self [OF ib] in auto)
  have "processGuessResult ?c res p = addAdjacentTargets ?c ?p1"
    using h ns g
    by (simp add: processGuessResult_def parseCoordinate_coordinate_of [OF ib] Let_def)
  then show ?thesis
    using addAdjacentTargets_queue [OF sz ib q1] filt by simp
qed

lemma neighbour_counts:
  "(1 \<le> row \<and> row \<le> 8 \<and> 1 \<le> col \<and> col \<le> 8 \<longrightarrow> length (expected_targets {} row col) = 4)
   \<and> ((row = 0 \<or> row = 9) \<and> (col = 0 \<or> col = 9) \<longrightarrow> length (expected_targets {} row col) = 2)"
  by (auto simp: expected_targets_def orthogonal_neighbours_def in_bounds10_def)

text \<open>
  Claim C4, on the code. \<open>addAdjacentTargets\<close> is a method of its own and the tests
  call it directly. Called with \<open>44\<close> on a new \<open>CPUPlayer\<close> it leaves the mode Hunt and
  the queue \<open>34\<close>, \<open>54\<close>, \<open>43\<close>, \<open>45\<close>. From this state in hunt mode, a hit at \<open>55\<close>
  that does not sink gives the queue \<open>34\<close>, \<open>54\<close>, \<open>43\<close>, \<open>45\<close>, \<open>65\<close>, \<open>56\<close>: the old
  entries stay, and the neighbour \<open>45\<close> is not enqueued again. The queue is not the
  list of the unguessed neighbours of \<open>55\<close>, which is \<open>45\<close>, \<open>65\<close>, \<open>54\<close>, \<open>56\<close>.
\<close>

theorem hunt_hit_keeps_queued_targets:
  "(case addAdjacentTargets ''44'' (CPUPlayer_new ''CPU'') of
      Inl e \<Rightarrow> False
    | Inr p \<Rightarrow>
        mode p = Hunt \<and> targetQueue p = [''34'', ''54'', ''43'', ''45'']
        \<and> guesses (opponentBoard p) = {}
        \<and> (case processGuessResult ''55''
                   \<lparr>r_hit = True, r_sunk = False, r_alreadyGuessed = False, r_ship = None\<rparr> p of
              Inl e \<Rightarrow> False
            | Inr p' \<Rightarrow>
                mode p' = Target
                \<and> targetQueue p' = [''34'', ''54'', ''43'', ''45'', ''65'', ''56'']
                \<and> expected_targets {} 5 5 = [''45'', ''65'', ''54'', ''56'']
                \<and> targetQueue p' \<noteq> expected_targets {} 5 5))"
  by (simp add: addAdjacentTargets_def processGuessResult_def add_target_def
      CPUPlayer_new_def Board_new_def createGrid_def parseCoordinate_def parseInt_def
      isValidCoordinate_def hasBeenGuessed_def grid_write_def row_write_def
      expected_targets_def orthogonal_neighbours_def in_bounds10_def coordinate_of_def
      show_int_def show_nat.simps digit_chars_def Let_def)

text \<open>
  Claim C4, amended. For every AI state in Hunt mode whose target queue is empty and
  whose tracking board is the 10 by 10 board of the constructor (size 10, a grid of 10
  rows), whatever has been guessed on it, and for every coordinate of the 10 by 10
  board: \<open>processGuessResult\<close> with a result that is a hit and not sunk returns, the
  mode is then Target, and the target queue holds exactly the neighbours of the
  coordinate that are on the board and not in the tracking board's guessed-set, in the
  order up, down, left, right. With nothing guessed these are 4 coordinates for an
  interior cell and 2 for a corner.
\<close>

theorem hunt_hit_enqueues_neighbours:
  assumes "mode p = Hunt" and "targetQueue p = []"
    and "sizeB (opponentBoard p) = 10" and "length (grid (opponentBoard p)) = 10"
    and "in_bounds10 (row, col)" and "r_hit res" and "\<not> r_sunk res"
  shows "(\<exists>p'. processGuessResult (coordinate_of (row, col)) res p = Inr p'
            \<and> mode p' = Target
            \<and> targetQueue p' = expected_targets (guesses (opponentBoard p)) row col)
       \<and> (1 \<le> row \<and> row \<le> 8 \<and> 1 \<le> col \<and> col \<le> 8
            \<longrightarrow> length (expected_targets {} row col) = 4)
       \<and> ((row = 0 \<or> row = 9) \<and> (col = 0 \<or> col = 9)
            \<longrightarrow> length (expected_targets {} row col) = 2)"
  using hit_not_sunk_transition [OF assms(2-7)] neighbour_counts [of row col]
  by blast

theorem hunt_hit_enqueues_neighbours_witness:
  "mode (CPUPlayer_new ''CPU'') = Hunt \<and> targetQueue (CPUPlayer_new ''CPU'') = []
   \<and> in_bounds10 (5, 5) \<and> in_bounds10 (0, 0)
   \<and> (case processGuessResult ''55''
              \<lparr>r_hit = True, r_sunk = False, r_alreadyGuessed = False, r_ship = None\<rparr>
              (CPUPlayer_new ''CPU'') of
         Inl e \<Rightarrow> False
       | Inr p' \<Rightarrow> mode p' = Target \<and> targetQueue p' = [''45'', ''65'', ''54'', ''56''])
   \<and> (case processGuessResult ''00''
              \<lparr>r_hit = True, r_sunk = False, r_alreadyGuessed = False, r_ship = None\<rparr>
              (CPUPlayer_new ''CPU'') of
         Inl e \<Rightarrow> False
       | Inr p' \<Rightarrow> mode p' = Target \<and> targetQueue p' = [''10'', ''01''])
   \<and> (case processGuessResult ''45''
              \<lparr>r_hit = False, r_sunk = False, r_alreadyGuessed = False, r_ship = None\<rparr>
              (CPUPlayer_new ''CPU'') of
         Inl e \<Rightarrow> False
       | Inr p \<Rightarrow>
           mode p = Hunt \<and> targetQueue p = [] \<and> guesses (opponentBoard p) = {''45''}
           \<and> (case processGuessResult ''55''
                      \<lparr>r_hit = True, r_sunk = False, r_alreadyGuessed = False, r_ship = None\<rparr> p of
                 Inl e \<Rightarrow> False
               | Inr p' \<Rightarrow> mode p' = Target \<and> targetQueue p' = [''65'', ''54'', ''56'']))"
proof -
  let ?res = "\<lparr>r_hit = True, r_sunk = False, r_alreadyGuessed = False, r_ship = None\<rparr>"
  let ?miss = "\<lparr>r_hit = False, r_sunk = False, r_alreadyGuessed = False, r_ship = None\<rparr>"
  let ?p = "CPUPlayer_new ''CPU''"
  have m: "mode ?p = Hunt" and q: "targetQueue ?p = []"
    and sz: "sizeB (opponentBoard ?p) = 10" and rw: "length (grid (opponentBoard ?p)) = 10"
    by (simp_all add: CPUPlayer_new_def Board_new_def createGrid_def)
  have b5: "in_bounds10 (5, 5)" and b0: "in_bounds10 (0, 0)" by (simp_all add: in_bounds10_def)
  have h: "r_hit ?res" and n: "\<not> r_sunk ?res" by simp_all
  have g: "guesses (opponentBoard ?p) = {}" by (simp add: CPUPlayer_new_def Board_new_def)
  have c5: "coordinate_of (5, 5) = ''55''" and c0: "coordinate_of (0, 0) = ''00''"
    by (simp_all add: coordinate_of_def show_int_def show_nat.simps digit_chars_def)
  have e5: "expected_targets {} 5 5 = [''45'', ''65'', ''54'', ''56'']"
    and e0: "expected_targets {} 0 0 = [''10'', ''01'']"
    and e45: "expected_targets {''45''} 5 5 = [''65'', ''54'', ''56'']"
    by (simp_all add: expected_targets_def orthogonal_neighbours_def in_bounds10_def
        coordinate_of_def show_int_def show_nat.simps digit_chars_def)
  from hunt_hit_enqueues_neighbours [OF m q sz rw b5 h n]
  obtain p5 where p5: "processGuessResult ''55'' ?res ?p = Inr p5" "mode p5 = Target"
    "targetQueue p5 = [''45'', ''65'', ''54'', ''56'']"
    unfolding g c5 e5 by blast
  from hunt_hit_enqueues_neighbours [OF m q sz rw b0 h n]
  obtain p0 where p0: "processGuessResult ''00'' ?res ?p = Inr p0" "mode p0 = Target"
    "targetQueue p0 = [''10'', ''01'']"
    unfolding g c0 e0 by blast
  obtain pm where pm: "processGuessResult ''45'' ?miss ?p = Inr pm"
    and mm: "mode pm = Hunt" and qm: "targetQueue pm = []"
    and szm: "sizeB (opponentBoard pm) = 10" and rwm: "length (grid (opponentBoard pm)) = 10"
    and gm: "guesses (opponentBoard pm) = {''45''}"
    by (simp add: processGuessResult_def CPUPlayer_new_def Board_new_def createGrid_def
        parseCoordinate_def parseInt_def digit_chars_def grid_write_def row_write_def Let_def)
  from hunt_hit_enqueues_neighbours [OF mm qm szm rwm b5 h n]
  obtain pn where pn: "processGuessResult ''55'' ?res pm = Inr pn" "mode pn = Target"
    "targetQueue pn = [''65'', ''54'', ''56'']"
    unfolding gm c5 e45 by blast
  show ?thesis using m q b5 b0 p5 p0 pm mm qm gm pn by simp
qed

section \<open>Properties of random placement\<close>

lemma on_board_iff:
  "on_board b l \<longleftrightarrow>
     (\<exists>r c. parseCoordinate l = Inr (Some r, Some c)
        \<and> 0 \<le> r \<and> r < int (sizeB b) \<and> 0 \<le> c \<and> c < int (sizeB b))"
  by (auto simp: on_board_def isValidCoordinate_def split: sum.splits prod.splits option.splits)

lemma cell_free_iff:
  "cell_free b l \<longleftrightarrow>
     (\<exists>r c. parseCoordinate l = Inr (Some r, Some c)
        \<and> 0 \<le> r \<and> r < int (sizeB b) \<and> 0 \<le> c \<and> c < int (sizeB b)
        \<and> grid_read (grid b) (Some r) (Some c) = Inr Water)"
  by (auto simp: cell_free_def isValidCoordinate_def split: sum.splits prod.splits option.splits if_splits)

lemma cell_free_on_board: "cell_free b l \<Longrightarrow> on_board b l"
  by (auto simp: cell_free_iff on_board_iff)

lemma canPlaceShip_Cons_True:
  "canPlaceShip (l # locs) b = Inr True \<longleftrightarrow> cell_free b l \<and> canPlaceShip locs b = Inr True"
  by (auto simp: cell_free_def split: sum.splits prod.splits if_splits)

lemma canPlaceShip_True_iff:
  "canPlaceShip locs b = Inr True \<longleftrightarrow> (\<forall>l\<in>set locs. cell_free b l)"
proof (induction locs)
  case Nil
  show ?case by simp
next
  case (Cons a locs)
  show ?case using Cons.IH canPlaceShip_Cons_True [of a locs b]
    by (simp del: canPlaceShip.simps)
qed

lemma parseInt_inj: "parseInt a = Some n \<Longrightarrow> parseInt b = Some n \<Longrightarrow> a = b"
  by (auto simp: parseInt_def indexOf_Some_iff)

lemma parseCoordinate_inj:
  assumes "parseCoordinate l = Inr (Some r, Some c)" "parseCoordinate l' = Inr (Some r, Some c)"
  shows "l = l'"
proof -
  have len: "length l = 2" "length l' = 2"
    using assms by (auto simp: parseCoordinate_def split: if_splits)
  have "l ! 0 = l' ! 0" "l ! 1 = l' ! 1"
    using assms by (auto simp: parseCoordinate_def split: if_splits intro: parseInt_inj)
  then show ?thesis using len
    by (intro nth_equalityI) (auto simp: less_Suc_eq numeral_2_eq_2)
qed

lemma row_write_nth:
  assumes "0 \<le> c" "0 \<le> c'"
  shows "(if c' < int (length (row_write xs (Some c) v)) then row_write xs (Some c) v ! nat c' else Undefined)
       = (if c' = c then v else if c' < int (length xs) then xs ! nat c' else Undefined)"
proof (cases "c < int (length xs)")
  case True
  then have "row_write xs (Some c) v = xs[nat c := v]" using assms by (simp add: row_write_def)
  then show ?thesis using True assms by (auto simp: nth_list_update)
next
  case False
  then have rw: "row_write xs (Some c) v = xs @ replicate (nat c - length xs) Undefined @ [v]"
    using assms by (simp add: row_write_def)
  have le: "length xs \<le> nat c" using False assms by linarith
  have len: "int (length (xs @ replicate (nat c - length xs) Undefined @ [v])) = c + 1"
    using le assms by simp
  show ?thesis
  proof (cases "c' < c")
    case True
    then have "nat c' < nat c" using assms by linarith
    then show ?thesis using True le assms unfolding rw len
      by (auto simp: nth_append)
  next
    case c: False
    show ?thesis
    proof (cases "c' = c")
      case True
      have "(xs @ replicate (nat c - length xs) Undefined @ [v]) ! nat c = v"
        using le by (simp add: nth_append)
      then show ?thesis using True unfolding rw len by simp
    next
      case False
      then have "\<not> c' < int (length xs)" "\<not> c' < c + 1" using c le assms by linarith+
      then show ?thesis using False unfolding rw len by simp
    qed
  qed
qed

lemma grid_read_in:
  "0 \<le> r \<Longrightarrow> r < int (length g) \<Longrightarrow> 0 \<le> c \<Longrightarrow>
   grid_read g (Some r) (Some c) =
     Inr (if c < int (length (g ! nat r)) then g ! nat r ! nat c else Undefined)"
  by (simp add: grid_read_def)

lemma grid_read_write:
  assumes w: "grid_write g (Some r) (Some c) v = Inr g'" and "0 \<le> c" "0 \<le> r'" "0 \<le> c'"
  shows "grid_read g' (Some r') (Some c') =
     (if r' = r \<and> c' = c then Inr v else grid_read g (Some r') (Some c'))"
proof -
  from w have r: "0 \<le> r" "r < int (length g)"
    and g': "g' = g[nat r := row_write (g ! nat r) (Some c) v]"
    by (auto simp: grid_write_def split: if_splits)
  show ?thesis
  proof (cases "r' < int (length g)")
    case False
    then show ?thesis using r assms(3) by (auto simp: grid_read_def g')
  next
    case True
    show ?thesis
    proof (cases "r' = r")
      case False
      then have "nat r' \<noteq> nat r" using r assms(3) by simp
      then show ?thesis using False True assms(3) by (simp add: grid_read_def g')
    next
      case eq: True
      have row: "g' ! nat r = row_write (g ! nat r) (Some c) v" using r by (simp add: g')
      have r': "r < int (length g')" using r by (simp add: g')
      have "grid_read g' (Some r) (Some c') =
          Inr (if c' = c then v else if c' < int (length (g ! nat r)) then g ! nat r ! nat c' else Undefined)"
        unfolding grid_read_in [OF r(1) r' assms(4)] row
        by (simp only: row_write_nth [OF assms(2,4)])
      also have "\<dots> = (if c' = c then Inr v else grid_read g (Some r) (Some c'))"
        unfolding grid_read_in [OF r assms(4)] by simp
      finally show ?thesis using eq by simp
    qed
  qed
qed

lemma mark_ship_effect:
  assumes "\<forall>l\<in>set locs. \<exists>r c. parseCoordinate l = Inr (Some r, Some c)
             \<and> 0 \<le> r \<and> r < int (length g) \<and> 0 \<le> c"
  shows "\<exists>g'. mark_ship locs g = Inr g' \<and> length g' = length g
           \<and> (\<forall>r' c'. 0 \<le> r' \<longrightarrow> 0 \<le> c' \<longrightarrow>
                grid_read g' (Some r') (Some c') =
                  (if \<exists>l\<in>set locs. parseCoordinate l = Inr (Some r', Some c') then Inr ShipMark
                   else grid_read g (Some r') (Some c')))"
  using assms
proof (induction locs arbitrary: g)
  case Nil
  show ?case by simp
next
  case (Cons l locs)
  from Cons.prems obtain r c where l: "parseCoordinate l = Inr (Some r, Some c)"
    "0 \<le> r" "r < int (length g)" "0 \<le> c" by auto
  then obtain g1 where g1: "grid_write g (Some r) (Some c) ShipMark = Inr g1"
    by (auto simp: grid_write_def)
  have len1: "length g1 = length g" using g1 by (rule grid_write_rows)
  have "\<forall>l\<in>set locs. \<exists>r c. parseCoordinate l = Inr (Some r, Some c)
             \<and> 0 \<le> r \<and> r < int (length g1) \<and> 0 \<le> c"
    using Cons.prems len1 by simp
  from Cons.IH [OF this] obtain g' where g': "mark_ship locs g1 = Inr g'" "length g' = length g1"
    and rd: "\<And>r' c'. 0 \<le> r' \<Longrightarrow> 0 \<le> c' \<Longrightarrow>
                grid_read g' (Some r') (Some c') =
                  (if \<exists>l\<in>set locs. parseCoordinate l = Inr (Some r', Some c') then Inr ShipMark
                   else grid_read g1 (Some r') (Some c'))"
    by blast
  have m: "mark_ship (l # locs) g = Inr g'" using l g1 g' by simp
  have "grid_read g' (Some r') (Some c') =
        (if \<exists>l'\<in>set (l # locs). parseCoordinate l' = Inr (Some r', Some c') then Inr ShipMark
         else grid_read g (Some r') (Some c'))" if "0 \<le> r'" "0 \<le> c'" for r' c'
    using rd [OF that] grid_read_write [OF g1 l(4) that] l(1) by auto
  then show ?case using m g'(2) len1 by (intro exI [of _ g']) simp
qed

lemma place_loop_step:
  "place_loop n len rs placed attempts b =
     (if placed < n \<and> attempts < maxAttempts then
        (case canPlaceShip (attempt_locations len rs attempts b) b of
           Inl e \<Rightarrow> Inl e
         | Inr True \<Rightarrow>
             (case placeShip (attempt_locations len rs attempts b) b of
                Inl e \<Rightarrow> Inl e
              | Inr b' \<Rightarrow> place_loop n len rs (placed + 1) (attempts + 1) b')
         | Inr False \<Rightarrow> place_loop n len rs placed (attempts + 1) b)
      else Inr (placed, attempts, b))"
  by (subst place_loop.simps)
     (auto simp: attempt_locations_def Let_def split: prod.splits sum.splits bool.splits)

lemma grid_read_Inr_row:
  "grid_read g (Some r) col = Inr v \<Longrightarrow> 0 \<le> r \<and> r < int (length g)"
  by (auto simp: grid_read_def split: if_splits)

lemma placeShip_result:
  assumes can: "canPlaceShip locs b = Inr True"
  shows "\<exists>b'. placeShip locs b = Inr b' \<and> ships b' = ships b @ [Ship_new locs]
           \<and> sizeB b' = sizeB b \<and> length (grid b') = length (grid b) \<and> guesses b' = guesses b
           \<and> (\<forall>r' c'. 0 \<le> r' \<longrightarrow> 0 \<le> c' \<longrightarrow>
                grid_read (grid b') (Some r') (Some c') =
                  (if \<exists>l\<in>set locs. parseCoordinate l = Inr (Some r', Some c') then Inr ShipMark
                   else grid_read (grid b) (Some r') (Some c')))"
proof -
  have "\<forall>l\<in>set locs. \<exists>r c. parseCoordinate l = Inr (Some r, Some c)
             \<and> 0 \<le> r \<and> r < int (length (grid b)) \<and> 0 \<le> c"
    using can unfolding canPlaceShip_True_iff cell_free_iff
    by (meson grid_read_Inr_row)
  from mark_ship_effect [OF this] obtain g' where g': "mark_ship locs (grid b) = Inr g'"
    "length g' = length (grid b)"
    "\<forall>r' c'. 0 \<le> r' \<longrightarrow> 0 \<le> c' \<longrightarrow>
                grid_read g' (Some r') (Some c') =
                  (if \<exists>l\<in>set locs. parseCoordinate l = Inr (Some r', Some c') then Inr ShipMark
                   else grid_read (grid b) (Some r') (Some c'))"
    by blast
  show ?thesis
    using g' by (intro exI [of _ "b\<lparr>ships := ships b @ [Ship_new locs], grid := g'\<rparr>"])
      (simp add: placeShip_def Let_def)
qed

lemma placeShip_ships_ok:
  assumes ok: "ships_ok b" and can: "canPlaceShip locs b = Inr True" and d: "distinct locs"
    and p: "placeShip locs b = Inr b'"
  shows "ships_ok b'"
proof -
  from placeShip_result [OF can] p
  have sh: "ships b' = ships b @ [Ship_new locs]" and sz: "sizeB b' = sizeB b"
    and rd: "\<And>r' c'. 0 \<le> r' \<Longrightarrow> 0 \<le> c' \<Longrightarrow>
                grid_read (grid b') (Some r') (Some c') =
                  (if \<exists>l\<in>set locs. parseCoordinate l = Inr (Some r', Some c') then Inr ShipMark
                   else grid_read (grid b) (Some r') (Some c'))"
    by auto
  have free: "\<And>l. l \<in> set locs \<Longrightarrow> cell_free b l"
    using can by (simp add: canPlaceShip_True_iff)
  have old: "\<And>s l. s \<in> set (ships b) \<Longrightarrow> l \<in> set (locations s) \<Longrightarrow> on_board b l \<and> \<not> cell_free b l"
    using ok by (simp add: ships_ok_def)
  have ob: "on_board b' l = on_board b l" for l by (simp add: on_board_iff sz)
  have still: "\<not> cell_free b' l" if "\<not> cell_free b l \<or> l \<in> set locs" for l
  proof
    assume "cell_free b' l"
    then obtain r c where rc: "parseCoordinate l = Inr (Some r, Some c)" "0 \<le> r" "r < int (sizeB b)"
      "0 \<le> c" "c < int (sizeB b)" "grid_read (grid b') (Some r) (Some c) = Inr Water"
      by (auto simp: cell_free_iff sz)
    from rc(6) rd [OF rc(2,4)]
    have no: "\<not> (\<exists>l\<in>set locs. parseCoordinate l = Inr (Some r, Some c))"
      and w: "grid_read (grid b) (Some r) (Some c) = Inr Water"
      by (auto split: if_splits)
    from no rc(1) have "l \<notin> set locs" by auto
    moreover from w rc have "cell_free b l" by (auto simp: cell_free_iff)
    ultimately show False using that by simp
  qed
  have disj: "set (concat (map locations (ships b))) \<inter> set locs = {}"
    using old free by auto
  have "distinct (concat (map locations (ships b')))"
    using ok d disj by (simp add: sh ships_ok_def Ship_new_def)
  moreover have "on_board b' l \<and> \<not> cell_free b' l"
    if "s \<in> set (ships b')" "l \<in> set (locations s)" for s l
  proof (cases "s \<in> set (ships b)")
    case True
    then show ?thesis using old [OF True that(2)] still [of l] ob by simp
  next
    case False
    then have "l \<in> set locs" using that by (simp add: sh Ship_new_def)
    then show ?thesis using free [of l] still [of l] ob cell_free_on_board by simp
  qed
  ultimately show ?thesis by (simp add: ships_ok_def)
qed

lemma show_nat_nonempty: "show_nat n \<noteq> []"
  by (subst show_nat.simps) simp

lemma show_nat_two: "10 \<le> n \<Longrightarrow> 2 \<le> length (show_nat n)"
  using show_nat_nonempty [of "n div 10"]
  by (subst show_nat.simps) (cases "show_nat (n div 10)", simp_all)

lemma show_int_length_one:
  assumes "length (show_int a) \<le> 1"
  shows "0 \<le> a \<and> a < 10"
proof -
  have "\<not> a < 0"
  proof
    assume "a < 0"
    then show False using assms show_nat_nonempty [of "nat (- a)"]
      by (cases "show_nat (nat (- a))") (simp_all add: show_int_def)
  qed
  moreover have "\<not> 10 \<le> a"
  proof
    assume "10 \<le> a"
    then have "10 \<le> nat a" by simp
    from show_nat_two [OF this] show False using assms \<open>10 \<le> a\<close> by (simp add: show_int_def)
  qed
  ultimately show ?thesis by simp
qed

lemma show_int_nonempty: "show_int a \<noteq> []"
  using show_nat_nonempty by (simp add: show_int_def)

lemma two_chars_in_bounds:
  assumes "length (show_int a @ show_int b) = 2"
  shows "in_bounds10 (a, b)"
proof -
  have "1 \<le> length (show_int a)" "1 \<le> length (show_int b)"
    using show_int_nonempty [of a] show_int_nonempty [of b]
    by (simp_all add: Suc_le_eq)
  then have "length (show_int a) \<le> 1" "length (show_int b) \<le> 1" using assms by simp_all
  then show ?thesis using show_int_length_one unfolding in_bounds10_def by simp
qed

lemma generateShipLocations_distinct:
  assumes "\<forall>l\<in>set (generateShipLocations sr sc len orient). length l = 2"
  shows "distinct (generateShipLocations sr sc len orient)"
proof -
  let ?pos = "\<lambda>i. (if orient = Horizontal then sr else sr + int i,
                    if orient = Horizontal then sc + int i else sc)"
  have eq: "generateShipLocations sr sc len orient = map (\<lambda>i. coordinate_of (?pos i)) [0..<len]"
    by (simp add: generateShipLocations_def coordinate_of_def Let_def)
  have ib: "in_bounds10 (?pos i)" if "i < len" for i
  proof -
    have "coordinate_of (?pos i) \<in> set (generateShipLocations sr sc len orient)"
      unfolding eq using that by simp
    then have "length (coordinate_of (?pos i)) = 2" using assms by blast
    then show ?thesis using two_chars_in_bounds by (simp add: coordinate_of_def)
  qed
  have "inj_on (\<lambda>i. coordinate_of (?pos i)) (set [0..<len])"
  proof (rule inj_onI)
    fix i j assume "i \<in> set [0..<len]" "j \<in> set [0..<len]"
      and e: "coordinate_of (?pos i) = coordinate_of (?pos j)"
    then have "i < len" "j < len" by simp_all
    from coordinate_of_inj [OF ib [OF this(1)] ib [OF this(2)] e]
    show "i = j" by (simp split: if_splits)
  qed
  then show ?thesis unfolding eq by (simp add: distinct_map)
qed

lemma canPlaceShip_distinct:
  assumes "canPlaceShip (attempt_locations len rs att b) b = Inr True"
  shows "distinct (attempt_locations len rs att b)"
proof -
  have "\<forall>l\<in>set (attempt_locations len rs att b). length l = 2"
    using assms unfolding canPlaceShip_True_iff cell_free_iff
    by (auto simp: parseCoordinate_def split: if_splits)
  then show ?thesis
    unfolding attempt_locations_def Let_def
    by (simp split: prod.splits add: generateShipLocations_distinct)
qed

lemma place_loop_ships_ok:
  assumes "ships_ok b" "place_loop n len rs placed att b = Inr (placed', att', b')"
  shows "ships_ok b' \<and> sizeB b' = sizeB b
       \<and> length (ships b') + placed = length (ships b) + placed'
       \<and> \<not> (placed' < n \<and> att' < maxAttempts) \<and> (placed \<le> n \<longrightarrow> placed' \<le> n)"
  using assms
proof (induction "maxAttempts - att" arbitrary: placed att b)
  case 0
  then show ?case by (subst (asm) place_loop_step) simp
next
  case (Suc k)
  let ?locs = "attempt_locations len rs att b"
  show ?case
  proof (cases "placed < n \<and> att < maxAttempts")
    case False
    then show ?thesis using Suc.prems by (subst (asm) place_loop_step) auto
  next
    case True
    have k: "k = maxAttempts - (att + 1)" using Suc.hyps(2) by simp
    from Suc.prems(2) True obtain v where v: "canPlaceShip ?locs b = Inr v"
      by (subst (asm) place_loop_step) (auto split: sum.splits)
    show ?thesis
    proof (cases v)
      case False
      then have "place_loop n len rs placed (att + 1) b = Inr (placed', att', b')"
        using Suc.prems(2) True v by (subst (asm) place_loop_step) simp
      from Suc.hyps(1) [OF k Suc.prems(1) this] show ?thesis .
    next
      case can: True
      from placeShip_result [of ?locs b] v can obtain b1 where b1: "placeShip ?locs b = Inr b1"
        "ships b1 = ships b @ [Ship_new ?locs]" "sizeB b1 = sizeB b" by auto
      have ok1: "ships_ok b1"
        using placeShip_ships_ok [OF Suc.prems(1) _ _ b1(1)] v can canPlaceShip_distinct by simp
      have "place_loop n len rs (placed + 1) (att + 1) b1 = Inr (placed', att', b')"
        using Suc.prems(2) True v can b1(1) by (subst (asm) place_loop_step) simp
      from Suc.hyps(1) [OF k ok1 this] show ?thesis using b1(2,3) True by simp
    qed
  qed
qed

lemma Board_new_ships_ok: "ships_ok (Board_new n)"
  by (simp add: ships_ok_def Board_new_def)

lemma distinct_concat_disjoint:
  assumes "distinct (concat xss)" "i < j" "j < length xss"
  shows "set (xss ! i) \<inter> set (xss ! j) = {}"
  using assms
proof (induction xss arbitrary: i j)
  case Nil
  then show ?case by simp
next
  case (Cons x xs)
  obtain j' where j: "j = Suc j'" using Cons.prems(2) by (cases j) auto
  then have j': "j' < length xs" using Cons.prems(3) by simp
  show ?case
  proof (cases i)
    case 0
    have "xs ! j' \<in> set xs" using j' by simp
    then have "set (xs ! j') \<subseteq> set (concat xs)" by auto
    then show ?thesis using Cons.prems(1) 0 j by auto
  next
    case (Suc i')
    then have "i' < j'" using Cons.prems(2) j by simp
    from Cons.IH [OF _ this j'] Cons.prems(1) show ?thesis using Suc j by simp
  qed
qed








text \<open>
  Claim C2. On a board whose fleet is in order, as it is on a new board, after every
  successful \<open>placeShipsRandomly\<close> the fleet is in order again and has the requested
  number of ships more: every cell of every ship is a coordinate of the board, no two
  ships share a coordinate, and no cell of a ship is free. A placement is accepted only
  when \<open>canPlaceShip\<close> finds all of its cells free, that is on the board and water.
\<close>

theorem placeShipsRandomly_no_overlap:
  assumes "ships_ok b" and "placeShipsRandomly n len rs b = Inr b'"
  shows "(\<forall>s\<in>set (ships b'). \<forall>l\<in>set (locations s). on_board b' l \<and> \<not> cell_free b' l)
       \<and> (\<forall>i j. i < j \<and> j < length (ships b')
             \<longrightarrow> set (locations (ships b' ! i)) \<inter> set (locations (ships b' ! j)) = {})
       \<and> distinct (concat (map locations (ships b')))
       \<and> length (ships b') = length (ships b) + n"
proof -
  from assms(2) obtain placed att where
    l: "place_loop n len rs 0 0 b = Inr (placed, att, b')" and p: "\<not> placed < n"
    by (auto simp: placeShipsRandomly_def split: sum.splits prod.splits if_splits)
  from place_loop_ships_ok [OF assms(1) l]
  have ok: "ships_ok b'" and len: "length (ships b') = length (ships b) + placed"
    and le: "placed \<le> n"
    by simp_all
  have d: "distinct (concat (map locations (ships b')))" using ok by (simp add: ships_ok_def)
  have "set (locations (ships b' ! i)) \<inter> set (locations (ships b' ! j)) = {}"
    if "i < j" "j < length (ships b')" for i j
    using distinct_concat_disjoint [OF d that(1)] that by simp
  then show ?thesis using ok d len le p by (simp add: ships_ok_def)
qed

theorem placeShipsRandomly_no_overlap_witness:
  "ships_ok (Board_new 10)
   \<and> (case placeShipsRandomly 2 3 (\<lambda>i. i * 2 ^ 50) (Board_new 10) of
         Inl e \<Rightarrow> False
       | Inr b' \<Rightarrow>
           map locations (ships b') = [[''12'', ''13'', ''14''], [''55'', ''56'', ''57'']]
           \<and> distinct (concat (map locations (ships b')))
           \<and> (\<forall>s\<in>set (ships b'). \<forall>l\<in>set (locations s). on_board b' l))"
proof -
  have ok: "ships_ok (Board_new 10)" by (simp add: ships_ok_def Board_new_def)
  obtain b' where b': "placeShipsRandomly 2 3 (\<lambda>i. i * 2 ^ 50) (Board_new 10) = Inr b'"
    and sh: "map locations (ships b') = [[''12'', ''13'', ''14''], [''55'', ''56'', ''57'']]"
    by (simp add: eval_defs)
  show ?thesis
    unfolding b' using placeShipsRandomly_no_overlap [OF ok b'] ok sh by simp
qed




end
